theory Spec2Isabelle
  imports Main
begin

section \<open>The SurrealDB connection pool of src/database/pool.ts\<close>

text \<open>
  The class \<open>SurrealDBPool\<close> keeps an array of connections with a checkout flag each.
  Its methods are embedded as functions that take the object's state and the state of
  the world around it (clock, backend, other tasks) and return the outcome with both
  states updated. A thrown error is the \<open>Inl\<close> side of the outcome.

  JavaScript runs one task at a time and switches tasks at an \<open>await\<close> only.
  \<^item> \<open>acquire\<close> waits inside its loop; there the other tasks act on the pool.
  \<^item> \<open>withConnection\<close> awaits its callback, which is any function of the states.
  \<^item> \<open>initialize\<close> and \<open>closeAll\<close> await the backend. The functions of these names
    are calls during which no other task touches the pool; for \<open>initialize\<close> the
    stretches between its awaits are given too (\<open>init_step\<close>), to run calls that
    overlap.
\<close>

subsection \<open>Data\<close>

text \<open>The object returned by \<open>getStats\<close>.\<close>

record PoolStats =
  total :: int
  inUse :: int
  available :: int

text \<open>
  \<open>interface PoolConnection\<close>. A \<open>Surreal\<close> client is an object compared with
  \<open>===\<close>, so only its identity matters: the number of the \<open>new Surreal()\<close> call
  that made it.
\<close>

record PoolConnection =
  client :: nat
  inUse :: bool
  lastUsed :: int

text \<open>The fields of \<open>class SurrealDBPool\<close>.\<close>

record SurrealDBPool =
  pool :: "PoolConnection list"
  maxSize :: int
  timeout :: int
  initialized :: bool

text \<open>
  Thrown values: \<open>DatabaseError message originalError\<close> of src/utils/errors.ts, and
  \<open>Thrown\<close> for whatever the backend library or a caller's callback throws.
\<close>

datatype error =
  Thrown string
  | DatabaseError string "error option"

text \<open>
  The world outside the object.
  \<^item> \<open>now\<close> is the wall clock in milliseconds. Before each \<open>Date.now()\<close> the time
    \<open>lapse k\<close> passes, \<open>k\<close> the number of earlier readings (\<open>ticks\<close>), and the
    clock may be set, forward or back: \<open>adjust\<close> lists the corrections still to come,
    one for each of the next readings (0 for none). So a reading can be lower than the
    one before it, any finite number of times.
  \<^item> \<open>number_text\<close> is the text the runtime gives for a number outside the safe
    integers, where the digits follow the rounding of doubles and, from 1e21 on, the
    exponent form.
  \<^item> \<open>conns\<close> counts the \<open>new Surreal()\<close> calls so far; \<open>connect_error k\<close> is what
    the handshake of the \<open>k\<close>-th one throws, if anything.
  \<^item> \<open>closed\<close> lists the clients on which \<open>close()\<close> has been called, in order;
    \<open>close_error k\<close> is what the \<open>k\<close>-th such call throws, if anything.
  \<^item> \<open>others k\<close> is what the other tasks do to the entries and to the flag
    \<open>initialized\<close> while this task is suspended for the \<open>k\<close>-th time (\<open>awaits\<close>
    counts the suspensions so far). The fields \<open>maxSize\<close> and \<open>timeout\<close> are
    \<open>readonly\<close> and out of their reach.
\<close>

record world =
  now :: int
  ticks :: nat
  lapse :: "nat \<Rightarrow> nat"
  adjust :: "int list"
  number_text :: "int \<Rightarrow> string"
  conns :: nat
  connect_error :: "nat \<Rightarrow> error option"
  closed :: "nat list"
  close_error :: "nat \<Rightarrow> error option"
  awaits :: nat
  others :: "nat \<Rightarrow> PoolConnection list \<times> bool \<Rightarrow> PoolConnection list \<times> bool"

subsection \<open>The environment's primitives\<close>

text \<open>\<open>Date.now()\<close>.\<close>

definition Date_now :: "world \<Rightarrow> int \<times> world" where
  "Date_now w =
     (let t = now w + int (lapse w (ticks w)) + (case adjust w of [] \<Rightarrow> 0 | a # rest \<Rightarrow> a)
      in (t, w\<lparr>now := t, ticks := Suc (ticks w), adjust := tl (adjust w)\<rparr>))"

text \<open>
  \<open>Array.prototype.find\<close> returns the first element that satisfies the predicate, as
  a reference into the array; the model returns its index.
\<close>

fun find_idx :: "('a \<Rightarrow> bool) \<Rightarrow> 'a list \<Rightarrow> nat option" where
  "find_idx P [] = None"
| "find_idx P (x # xs) =
     (if P x then Some 0 else map_option Suc (find_idx P xs))"

text \<open>
  The other tasks run while this one is suspended. They change the entries and the flag
  only.
\<close>

definition suspend :: "world \<Rightarrow> SurrealDBPool \<Rightarrow> SurrealDBPool \<times> world" where
  "suspend w p =
     (let r = others w (awaits w) (pool p, initialized p)
      in (p\<lparr>pool := fst r, initialized := snd r\<rparr>, w\<lparr>awaits := Suc (awaits w)\<rparr>))"

text \<open>
  \<open>await new Promise((resolve) => setTimeout(resolve, ms))\<close>: the timer fires after
  \<open>ms\<close> milliseconds at the earliest (any delay beyond that is part of the \<open>lapse\<close>
  of the next clock reading), and the other tasks run meanwhile.
\<close>

definition setTimeout_wait :: "nat \<Rightarrow> world \<Rightarrow> SurrealDBPool \<Rightarrow> SurrealDBPool \<times> world" where
  "setTimeout_wait ms w p = suspend (w\<lparr>now := now w + int ms\<rparr>) p"

text \<open>
  \<open>createConnection\<close>: a new client object, then \<open>connect\<close>, \<open>signin\<close> and \<open>use\<close>;
  the three awaited calls are one outcome here.
\<close>

definition createConnection :: "world \<Rightarrow> (error + nat) \<times> world" where
  "createConnection w =
     (let c = conns w; w' = w\<lparr>conns := Suc c\<rparr>
      in case connect_error w c of
           Some e \<Rightarrow> (Inl e, w')
         | None \<Rightarrow> (Inr c, w'))"

text \<open>\<open>client.close()\<close>.\<close>

definition close_client :: "nat \<Rightarrow> world \<Rightarrow> (error + unit) \<times> world" where
  "close_client c w =
     (let w' = w\<lparr>closed := closed w @ [c]\<rparr>
      in case close_error w (length (closed w)) of
           Some e \<Rightarrow> (Inl e, w')
         | None \<Rightarrow> (Inr (), w'))"

text \<open>
  A number inside a template literal, for integers: decimal, with a sign.
  \<open>digit_char\<close> is applied to numbers below ten only.
\<close>

definition digit_char :: "nat \<Rightarrow> char" where
  "digit_char d = ''0123456789'' ! d"

function show_nat :: "nat \<Rightarrow> string" where
  "show_nat n =
     (if n < 10 then [digit_char n]
      else show_nat (n div 10) @ [digit_char (n mod 10)])"
  by pat_completeness auto
termination
  by (relation "measure id") auto

declare show_nat.simps [simp del]

definition show_int :: "int \<Rightarrow> string" where
  "show_int i = (if i < 0 then CHR ''-'' # show_nat (nat (- i)) else show_nat (nat i))"

text \<open>
  A number \<open>n\<close> in a template literal, for an integer: its decimal digits while it is
  a safe integer (below \<open>2^53\<close> in absolute value), the runtime's text beyond.
\<close>

definition Number_toString :: "(int \<Rightarrow> string) \<Rightarrow> int \<Rightarrow> string" where
  "Number_toString beyond n = (if \<bar>n\<bar> < 2 ^ 53 then show_int n else beyond n)"

subsection \<open>The methods\<close>

text \<open>The constructor.\<close>

definition new_pool :: "int \<Rightarrow> int \<Rightarrow> SurrealDBPool" where
  "new_pool sz tmo = \<lparr>pool = [], maxSize = sz, timeout = tmo, initialized = False\<rparr>"

text \<open>
  The \<open>for\<close> loop of \<open>initialize\<close>, from counter \<open>i\<close> on. An error of
  \<open>createConnection\<close> leaves the loop with the entries pushed so far still in the array.
\<close>

function init_loop :: "nat \<Rightarrow> world \<Rightarrow> SurrealDBPool \<Rightarrow> (error + unit) \<times> SurrealDBPool \<times> world" where
  "init_loop i w p =
     (if int i < maxSize p then
        (case createConnection w of
           (Inl e, w1) \<Rightarrow> (Inl e, p, w1)
         | (Inr c, w1) \<Rightarrow>
             (case Date_now w1 of
                (t, w2) \<Rightarrow>
                  init_loop (Suc i) w2
                    (p\<lparr>pool := pool p @ [\<lparr>client = c, inUse = False, lastUsed = t\<rparr>]\<rparr>)))
      else (Inr (), p, w))"
  by pat_completeness auto
termination
  by (relation "measure (\<lambda>(i, w, p). nat (maxSize p - int i))") auto

declare init_loop.simps [simp del]

definition initialize :: "world \<Rightarrow> SurrealDBPool \<Rightarrow> (error + unit) \<times> SurrealDBPool \<times> world" where
  "initialize w p =
     (if initialized p then (Inr (), p, w)
      else
        (case init_loop 0 w p of
           (Inr u, p', w') \<Rightarrow> (Inr (), p'\<lparr>initialized := True\<rparr>, w')
         | (Inl e, p', w') \<Rightarrow>
             (Inl (DatabaseError ''Failed to initialize connection pool'' (Some e)), p', w')))"

definition acquire_message :: "(int \<Rightarrow> string) \<Rightarrow> int \<Rightarrow> string" where
  "acquire_message beyond tmo =
     ''Failed to acquire connection within '' @ Number_toString beyond tmo @ ''ms timeout''"

text \<open>
  The \<open>while\<close> loop of \<open>acquire\<close>. Every round reads the clock for the guard; a round
  that finds no free entry waits 10 ms. The loop ends: each round uses up a correction
  of the clock, and once none is left every round brings the reading 10 ms closer to the
  end of the timeout.
\<close>

function acquire_loop :: "int \<Rightarrow> world \<Rightarrow> SurrealDBPool \<Rightarrow> (error + nat) \<times> SurrealDBPool \<times> world" where
  "acquire_loop start w p =
     (case Date_now w of
        (t, w1) \<Rightarrow>
          if t - start < timeout p then
            (case find_idx (\<lambda>conn. \<not> inUse conn) (pool p) of
               Some i \<Rightarrow>
                 (case Date_now w1 of
                    (t2, w2) \<Rightarrow>
                      (Inr (client (pool p ! i)),
                       p\<lparr>pool := (pool p)[i := (pool p ! i)\<lparr>inUse := True, lastUsed := t2\<rparr>]\<rparr>,
                       w2))
             | None \<Rightarrow>
                 (case setTimeout_wait 10 w1 p of
                    (p', w') \<Rightarrow> acquire_loop start w' p'))
          else (Inl (DatabaseError (acquire_message (number_text w) (timeout p)) None), p, w1))"
  by pat_completeness auto
termination
  by (relation "measures [\<lambda>(start, w, p). length (adjust w),
                          \<lambda>(start, w, p). nat (start + timeout p - now w)]")
     (auto simp: Date_now_def setTimeout_wait_def suspend_def Let_def split: list.splits)

declare acquire_loop.simps [simp del]

definition acquire :: "world \<Rightarrow> SurrealDBPool \<Rightarrow> (error + nat) \<times> SurrealDBPool \<times> world" where
  "acquire w p =
     (case (if \<not> initialized p then initialize w p else (Inr (), p, w)) of
        (Inl e, p1, w1) \<Rightarrow> (Inl e, p1, w1)
      | (Inr u, p1, w1) \<Rightarrow>
          (case Date_now w1 of (start, w2) \<Rightarrow> acquire_loop start w2 p1))"

definition release :: "nat \<Rightarrow> world \<Rightarrow> SurrealDBPool \<Rightarrow> SurrealDBPool \<times> world" where
  "release c w p =
     (case find_idx (\<lambda>conn. client conn = c) (pool p) of
        Some i \<Rightarrow>
          (case Date_now w of
             (t, w1) \<Rightarrow>
               (p\<lparr>pool := (pool p)[i := (pool p ! i)\<lparr>inUse := False, lastUsed := t\<rparr>]\<rparr>, w1))
      | None \<Rightarrow> (p, w))"

text \<open>
  \<open>withConnection\<close>. The callback is any function of the client that may use the world
  and the pool and returns or throws; \<open>finally\<close> runs \<open>release\<close> on both ways out.
\<close>

definition withConnection ::
  "(nat \<Rightarrow> world \<Rightarrow> SurrealDBPool \<Rightarrow> (error + 'a) \<times> SurrealDBPool \<times> world) \<Rightarrow>
   world \<Rightarrow> SurrealDBPool \<Rightarrow> (error + 'a) \<times> SurrealDBPool \<times> world" where
  "withConnection fn w p =
     (case acquire w p of
        (Inl e, p1, w1) \<Rightarrow> (Inl e, p1, w1)
      | (Inr c, p1, w1) \<Rightarrow>
          (case fn c w1 p1 of
             (r, p2, w2) \<Rightarrow>
               (case release c w2 p2 of (p3, w3) \<Rightarrow> (r, p3, w3))))"

definition getStats :: "SurrealDBPool \<Rightarrow> PoolStats" where
  "getStats p =
     (let n = int (length (filter inUse (pool p)))
      in \<lparr>total = int (length (pool p)), inUse = n, available = int (length (pool p)) - n\<rparr>)"

text \<open>The \<open>for ... of\<close> loop of \<open>closeAll\<close>: the first \<open>close()\<close> that throws ends it.\<close>

fun close_loop :: "PoolConnection list \<Rightarrow> world \<Rightarrow> (error + unit) \<times> world" where
  "close_loop [] w = (Inr (), w)"
| "close_loop (conn # rest) w =
     (case close_client (client conn) w of
        (Inl e, w1) \<Rightarrow> (Inl e, w1)
      | (Inr u, w1) \<Rightarrow> close_loop rest w1)"

definition closeAll :: "world \<Rightarrow> SurrealDBPool \<Rightarrow> (error + unit) \<times> SurrealDBPool \<times> world" where
  "closeAll w p =
     (case close_loop (pool p) w of
        (Inr u, w1) \<Rightarrow> (Inr (), p\<lparr>pool := [], initialized := False\<rparr>, w1)
      | (Inl e, w1) \<Rightarrow>
          (Inl (DatabaseError ''Failed to close connection pool'' (Some e)), p, w1))"

subsection \<open>Overlapping calls of initialize\<close>

text \<open>
  An \<open>async\<close> function runs without interruption from one \<open>await\<close> to the next, and
  other calls run while it is suspended. \<open>initialize\<close> is suspended in
  \<open>createConnection\<close> only. A call is either not yet started, or suspended in the
  \<open>createConnection\<close> of loop counter \<open>i\<close> with the new client \<open>c\<close>, or it has
  returned, or thrown.
\<close>

datatype init_task = InitCalled | Connecting nat nat | InitReturned | InitThrew error

text \<open>
  The loop test at counter \<open>i\<close>: either the next \<open>createConnection\<close> starts (a new
  client; the call is suspended), or the loop is over and the flag is set.
\<close>

definition init_enter :: "nat \<Rightarrow> world \<Rightarrow> SurrealDBPool \<Rightarrow> init_task \<times> SurrealDBPool \<times> world" where
  "init_enter i w p =
     (if int i < maxSize p then (Connecting i (conns w), p, w\<lparr>conns := Suc (conns w)\<rparr>)
      else (InitReturned, p\<lparr>initialized := True\<rparr>, w))"

text \<open>
  One uninterrupted stretch of a call: from the call to the first \<open>await\<close>, or from the
  end of a \<open>createConnection\<close> (thrown error, or \<open>push\<close> and the next loop test) to
  the next \<open>await\<close> or to the end.
\<close>

fun init_step :: "init_task \<Rightarrow> world \<Rightarrow> SurrealDBPool \<Rightarrow> init_task \<times> SurrealDBPool \<times> world" where
  "init_step InitCalled w p =
     (if initialized p then (InitReturned, p, w) else init_enter 0 w p)"
| "init_step (Connecting i c) w p =
     (case connect_error w c of
        Some e \<Rightarrow>
          (InitThrew (DatabaseError ''Failed to initialize connection pool'' (Some e)), p, w)
      | None \<Rightarrow>
          (case Date_now w of
             (t, w1) \<Rightarrow>
               init_enter (Suc i) w1
                 (p\<lparr>pool := pool p @ [\<lparr>client = c, inUse = False, lastUsed = t\<rparr>]\<rparr>)))"
| "init_step InitReturned w p = (InitReturned, p, w)"
| "init_step (InitThrew e) w p = (InitThrew e, p, w)"

text \<open>
  A schedule names, stretch by stretch, the call that runs next; \<open>interleave\<close> runs
  the calls \<open>ts\<close> by it.
\<close>

fun interleave ::
  "nat list \<Rightarrow> init_task list \<Rightarrow> world \<Rightarrow> SurrealDBPool \<Rightarrow> init_task list \<times> SurrealDBPool \<times> world" where
  "interleave [] ts w p = (ts, p, w)"
| "interleave (k # ks) ts w p =
     (if k < length ts then
        (case init_step (ts ! k) w p of
           (t, p1, w1) \<Rightarrow> interleave ks (ts[k := t]) w1 p1)
      else interleave ks ts w p)"

subsection \<open>Sequences of calls\<close>

text \<open>
  A caller's calls, one after the other. \<open>run\<close> returns what each call returned or
  threw, oldest first, and the final states.
\<close>

datatype call = Initialize | Acquire | Release nat | CloseAll

datatype outcome = Done | Got nat | Raised error

fun exec :: "call \<Rightarrow> world \<Rightarrow> SurrealDBPool \<Rightarrow> outcome \<times> SurrealDBPool \<times> world" where
  "exec Initialize w p =
     (case initialize w p of
        (Inl e, p', w') \<Rightarrow> (Raised e, p', w')
      | (Inr u, p', w') \<Rightarrow> (Done, p', w'))"
| "exec Acquire w p =
     (case acquire w p of
        (Inl e, p', w') \<Rightarrow> (Raised e, p', w')
      | (Inr c, p', w') \<Rightarrow> (Got c, p', w'))"
| "exec (Release c) w p = (case release c w p of (p', w') \<Rightarrow> (Done, p', w'))"
| "exec CloseAll w p =
     (case closeAll w p of
        (Inl e, p', w') \<Rightarrow> (Raised e, p', w')
      | (Inr u, p', w') \<Rightarrow> (Done, p', w'))"

fun run :: "call list \<Rightarrow> world \<Rightarrow> SurrealDBPool \<Rightarrow> outcome list \<times> SurrealDBPool \<times> world" where
  "run [] w p = ([], p, w)"
| "run (c # cs) w p =
     (case exec c w p of
        (r, p1, w1) \<Rightarrow> (case run cs w1 p1 of (rs, p2, w2) \<Rightarrow> (r # rs, p2, w2)))"

text \<open>
  A trace pairs each call with its outcome. It is exclusive from a set \<open>H\<close> of
  clients that are out when no \<open>acquire\<close> in it returns a client that is out: one in
  \<open>H\<close>, or one returned earlier in the trace, with no \<open>release\<close> called for it
  since.
\<close>

fun exclusive :: "nat set \<Rightarrow> (call \<times> outcome) list \<Rightarrow> bool" where
  "exclusive H [] = True"
| "exclusive H ((Acquire, Got c) # xs) = (c \<notin> H \<and> exclusive (insert c H) xs)"
| "exclusive H ((Release c, r) # xs) = exclusive (H - {c}) xs"
| "exclusive H (x # xs) = exclusive H xs"

text \<open>
  What holds of the pool between calls when \<open>H\<close> are the clients that are out and no
  other task is there: the entries hold different clients, all made already, and every
  entry whose client is out is marked in use.
\<close>

definition pool_inv :: "nat set \<Rightarrow> SurrealDBPool \<Rightarrow> world \<Rightarrow> bool" where
  "pool_inv H p w \<longleftrightarrow>
     distinct (map client (pool p))
     \<and> (\<forall>e\<in>set (pool p). client e < conns w)
     \<and> (\<forall>c\<in>H. c < conns w)
     \<and> (\<forall>e\<in>set (pool p). client e \<in> H \<longrightarrow> inUse e)
     \<and> (\<forall>k s. others w k s = s)"

subsection \<open>The other tasks, and a world without them\<close>

text \<open>
  What the other tasks, with behaviour \<open>f\<close>, do to a pool over the \<open>n\<close> suspensions
  numbered \<open>k\<close>, \<open>k + 1\<close>, ...: the difference between two states of the pool that
  this task has not caused itself.
\<close>

fun others_run ::
  "(nat \<Rightarrow> PoolConnection list \<times> bool \<Rightarrow> PoolConnection list \<times> bool) \<Rightarrow>
   nat \<Rightarrow> nat \<Rightarrow> SurrealDBPool \<Rightarrow> SurrealDBPool" where
  "others_run f k 0 p = p"
| "others_run f k (Suc n) p =
     others_run f (Suc k) n
       (p\<lparr>pool := fst (f k (pool p, initialized p)),
          initialized := snd (f k (pool p, initialized p))\<rparr>)"



text \<open>
  A quiet world: the clock starts at \<open>t0\<close> and is never set, nothing fails, nobody else
  is there. (No example has a number beyond the safe integers.)
\<close>

definition quiet_world :: "int \<Rightarrow> world" where
  "quiet_world t0 =
     \<lparr>now = t0, ticks = 0, lapse = (\<lambda>k. 0), adjust = [], number_text = (\<lambda>n. []),
      conns = 0, connect_error = (\<lambda>k. None),
      closed = [], close_error = (\<lambda>k. None), awaits = 0, others = (\<lambda>k s. s)\<rparr>"

subsection \<open>Example states\<close>

text \<open>An initialized pool of two with both connections checked out.\<close>

definition pool2 :: SurrealDBPool where
  "pool2 = \<lparr>pool = [\<lparr>client = 0, inUse = True, lastUsed = 5\<rparr>, \<lparr>client = 1, inUse = True, lastUsed = 7\<rparr>],
            maxSize = 2, timeout = 1000, initialized = True\<rparr>"



text \<open>A world in which the handshake of the second client ever made is refused.\<close>

definition refusing_world :: world where
  "refusing_world =
     (quiet_world 0)\<lparr>connect_error := (\<lambda>k. if k = 1 then Some (Thrown ''ECONNREFUSED'') else None)\<rparr>"





text \<open>Callbacks for \<open>withConnection\<close>: one that throws, one that returns a value.\<close>

definition fn_throws :: "nat \<Rightarrow> world \<Rightarrow> SurrealDBPool \<Rightarrow> (error + nat) \<times> SurrealDBPool \<times> world" where
  "fn_throws c w p = (Inl (Thrown ''query failed''), p, w)"

definition fn_returns :: "nat \<Rightarrow> world \<Rightarrow> SurrealDBPool \<Rightarrow> (error + nat) \<times> SurrealDBPool \<times> world" where
  "fn_returns c w p = (Inr (c + 41), p, w)"

text \<open>A world in which the first \<open>close()\<close> ever called throws.\<close>

definition stuck_world :: world where
  "stuck_world =
     (quiet_world 0)\<lparr>close_error := (\<lambda>k. if k = 0 then Some (Thrown ''socket hang up'') else None)\<rparr>"

section \<open>Statistics\<close>

text \<open>
  C8. \<open>getStats\<close> only reads the pool: its result is a function of the state alone and
  the state is not among its results. In every state, and so after every sequence of
  calls in every world, \<open>total\<close> is the number of entries, \<open>inUse\<close> the number of entries
  whose flag is set, \<open>available\<close> their difference, and \<open>available + inUse = total\<close>.
\<close>

theorem getStats_consistent:
  "(let s = getStats (fst (snd (run cs w p))); es = pool (fst (snd (run cs w p)))
    in total s = int (length es)
       \<and> PoolStats.inUse s = int (card {i. i < length es \<and> inUse (es ! i)})
       \<and> available s = total s - PoolStats.inUse s
       \<and> available s + PoolStats.inUse s = total s
       \<and> 0 \<le> available s)"
  by (simp add: getStats_def Let_def length_filter_conv_card [symmetric])

section \<open>Releasing\<close>

lemma find_idx_Some:
  "find_idx P xs = Some i \<Longrightarrow> i < length xs \<and> P (xs ! i) \<and> (\<forall>j<i. \<not> P (xs ! j))"
proof (induction xs arbitrary: i)
  case Nil
  then show ?case by simp
next
  case (Cons x xs)
  show ?case
  proof (cases "P x")
    case True
    with Cons.prems show ?thesis by simp
  next
    case False
    with Cons.prems obtain k where k: "find_idx P xs = Some k" "i = Suc k"
      by auto
    from Cons.IH [OF k(1)] False k(2) show ?thesis
      by (auto simp: nth_Cons split: nat.splits)
  qed
qed

lemma find_idx_None: "find_idx P xs = None \<longleftrightarrow> (\<forall>x\<in>set xs. \<not> P x)"
  by (induction xs) auto

lemma find_idx_first:
  "i < length xs \<Longrightarrow> P (xs ! i) \<Longrightarrow> (\<forall>j<i. \<not> P (xs ! j)) \<Longrightarrow> find_idx P xs = Some i"
proof (induction xs arbitrary: i)
  case Nil
  then show ?case by simp
next
  case (Cons x xs)
  show ?case
  proof (cases i)
    case 0
    with Cons.prems show ?thesis by simp
  next
    case (Suc k)
    with Cons.prems have "\<not> P x" by auto
    moreover from Cons.prems Suc have "find_idx P xs = Some k"
      by (intro Cons.IH) auto
    ultimately show ?thesis using Suc by simp
  qed
qed

lemma count_inUse_map: "length (filter inUse xs) = length (filter id (map inUse xs))"
  by (induction xs) auto

lemma getStats_flags:
  assumes "map inUse (pool q) = map inUse (pool p)"
  shows "getStats q = getStats p"
proof -
  have "length (pool q) = length (pool p)"
    using assms by (metis length_map)
  moreover have "length (filter inUse (pool q)) = length (filter inUse (pool p))"
    by (simp only: count_inUse_map assms)
  ultimately show ?thesis
    by (simp add: getStats_def Let_def)
qed

text \<open>
  C6. \<open>release\<close> has no way to throw. If no entry holds the client, the pool, the
  world and so the statistics are unchanged. Otherwise the first entry that holds it (the
  only one when clients are distinct) gets \<open>inUse = false\<close> and the clock reading as
  \<open>lastUsed\<close>, and every other entry stays as it is.
\<close>

theorem release_entry_or_noop:
  "((\<forall>conn\<in>set (pool p). client conn \<noteq> c) \<longrightarrow>
      release c w p = (p, w) \<and> getStats (fst (release c w p)) = getStats p)
   \<and> (i < length (pool p) \<and> client (pool p ! i) = c \<and> (\<forall>j<i. client (pool p ! j) \<noteq> c) \<longrightarrow>
      release c w p =
        (p\<lparr>pool := (pool p)[i := (pool p ! i)\<lparr>inUse := False, lastUsed := fst (Date_now w)\<rparr>]\<rparr>,
         snd (Date_now w))
      \<and> \<not> inUse (pool (fst (release c w p)) ! i)
      \<and> lastUsed (pool (fst (release c w p)) ! i) = fst (Date_now w)
      \<and> (\<forall>j<length (pool p). j \<noteq> i \<longrightarrow> pool (fst (release c w p)) ! j = pool p ! j))"
proof (intro conjI impI)
  assume "\<forall>conn\<in>set (pool p). client conn \<noteq> c"
  then have "find_idx (\<lambda>conn. client conn = c) (pool p) = None"
    by (simp add: find_idx_None)
  then show "release c w p = (p, w)" by (simp add: release_def)
  then show "getStats (fst (release c w p)) = getStats p" by simp
next
  assume h: "i < length (pool p) \<and> client (pool p ! i) = c \<and> (\<forall>j<i. client (pool p ! j) \<noteq> c)"
  then have f: "find_idx (\<lambda>conn. client conn = c) (pool p) = Some i"
    by (intro find_idx_first) auto
  then show r: "release c w p =
        (p\<lparr>pool := (pool p)[i := (pool p ! i)\<lparr>inUse := False, lastUsed := fst (Date_now w)\<rparr>]\<rparr>,
         snd (Date_now w))"
    by (simp add: release_def split: prod.splits)
  from h show "\<not> inUse (pool (fst (release c w p)) ! i)"
    by (simp add: r)
  from h show "lastUsed (pool (fst (release c w p)) ! i) = fst (Date_now w)"
    by (simp add: r)
  show "\<forall>j<length (pool p). j \<noteq> i \<longrightarrow> pool (fst (release c w p)) ! j = pool p ! j"
    by (simp add: r)
qed

theorem release_entry_or_noop_witness:
  "release 9 (quiet_world 40) pool2 = (pool2, quiet_world 40)
   \<and> getStats (fst (release 9 (quiet_world 40) pool2)) = getStats pool2
   \<and> pool (fst (release 1 (quiet_world 40) pool2)) =
       [\<lparr>client = 0, inUse = True, lastUsed = 5\<rparr>, \<lparr>client = 1, inUse = False, lastUsed = 40\<rparr>]"
  using release_entry_or_noop [of pool2 9 "quiet_world 40" 0]
    release_entry_or_noop [of pool2 1 "quiet_world 40" 1]
  by (simp add: pool2_def quiet_world_def Date_now_def Let_def)

lemma release_flags:
  "map client (pool (fst (release c w p))) = map client (pool p)
   \<and> length (pool (fst (release c w p))) = length (pool p)
   \<and> initialized (fst (release c w p)) = initialized p
   \<and> maxSize (fst (release c w p)) = maxSize p
   \<and> timeout (fst (release c w p)) = timeout p"
  by (auto simp: release_def map_update list_update_same_conv
      dest!: find_idx_Some split: option.splits prod.splits)

lemma find_idx_map: "find_idx (\<lambda>x. P (f x)) xs = find_idx P (map f xs)"
  by (induction xs) simp_all

lemma release_again:
  assumes "release c w p = (p1, w1)"
  shows "find_idx (\<lambda>conn. client conn = c) (pool p1) = find_idx (\<lambda>conn. client conn = c) (pool p)"
    and "\<And>i. find_idx (\<lambda>conn. client conn = c) (pool p) = Some i \<Longrightarrow> \<not> inUse (pool p1 ! i)"
proof -
  have m: "map client (pool p1) = map client (pool p)"
    using release_flags [of c w p] assms by simp
  have "find_idx (\<lambda>conn. client conn = c) (pool p1) = find_idx (\<lambda>x. x = c) (map client (pool p1))"
    by (rule find_idx_map)
  also have "\<dots> = find_idx (\<lambda>x. x = c) (map client (pool p))"
    by (simp only: m)
  also have "\<dots> = find_idx (\<lambda>conn. client conn = c) (pool p)"
    by (rule find_idx_map [symmetric])
  finally show "find_idx (\<lambda>conn. client conn = c) (pool p1) = find_idx (\<lambda>conn. client conn = c) (pool p)" .
  fix i
  assume f: "find_idx (\<lambda>conn. client conn = c) (pool p) = Some i"
  then have "i < length (pool p)" by (auto dest: find_idx_Some)
  with f assms show "\<not> inUse (pool p1 ! i)"
    by (auto simp: release_def split: prod.splits)
qed

text \<open>
  C10. A second \<open>release\<close> of the same client right after the first leaves every flag,
  every client and the statistics as the first left them; it only writes a new clock
  reading into \<open>lastUsed\<close> of the entry that holds the client.
\<close>

theorem release_twice:
  "(case release c w p of
      (p1, w1) \<Rightarrow>
        (case release c w1 p1 of
           (p2, w2) \<Rightarrow>
             map inUse (pool p2) = map inUse (pool p1)
             \<and> map client (pool p2) = map client (pool p1)
             \<and> initialized p2 = initialized p1
             \<and> getStats p2 = getStats p1
             \<and> pool p2 =
                 (case find_idx (\<lambda>conn. client conn = c) (pool p1) of
                    None \<Rightarrow> pool p1
                  | Some i \<Rightarrow> (pool p1)[i := (pool p1 ! i)\<lparr>lastUsed := fst (Date_now w1)\<rparr>])))"
proof -
  obtain p1 w1 where r1: "release c w p = (p1, w1)" by (cases "release c w p")
  obtain p2 w2 where r2: "release c w1 p1 = (p2, w2)" by (cases "release c w1 p1")
  have cl: "map client (pool p2) = map client (pool p1)" "initialized p2 = initialized p1"
    using release_flags [of c w1 p1] r2 by simp_all
  have upd: "pool p2 =
      (case find_idx (\<lambda>conn. client conn = c) (pool p1) of
         None \<Rightarrow> pool p1
       | Some i \<Rightarrow> (pool p1)[i := (pool p1 ! i)\<lparr>lastUsed := fst (Date_now w1)\<rparr>])"
  proof (cases "find_idx (\<lambda>conn. client conn = c) (pool p1)")
    case None
    with r2 show ?thesis by (simp add: release_def)
  next
    case (Some i)
    then have "find_idx (\<lambda>conn. client conn = c) (pool p) = Some i"
      using release_again(1) [OF r1] by simp
    then have "\<not> inUse (pool p1 ! i)"
      by (rule release_again(2) [OF r1])
    then have "(pool p1 ! i)\<lparr>inUse := False, lastUsed := fst (Date_now w1)\<rparr>
        = (pool p1 ! i)\<lparr>lastUsed := fst (Date_now w1)\<rparr>"
      by simp
    with r2 Some show ?thesis
      by (auto simp: release_def split: prod.splits)
  qed
  have fl: "map inUse (pool p2) = map inUse (pool p1)"
  proof (cases "find_idx (\<lambda>conn. client conn = c) (pool p1)")
    case None
    with upd show ?thesis by simp
  next
    case (Some i)
    then have "i < length (pool p1)" by (auto dest: find_idx_Some)
    with upd Some show ?thesis
      by (simp add: map_update list_update_same_conv)
  qed
  from fl have "getStats p2 = getStats p1" by (rule getStats_flags)
  with r1 r2 cl upd fl show ?thesis by simp
qed

theorem release_twice_witness:
  "pool (fst (release 1 (snd (release 1 ((quiet_world 40)\<lparr>lapse := (\<lambda>k. 3)\<rparr>) pool2))
           (fst (release 1 ((quiet_world 40)\<lparr>lapse := (\<lambda>k. 3)\<rparr>) pool2)))) =
     [\<lparr>client = 0, inUse = True, lastUsed = 5\<rparr>, \<lparr>client = 1, inUse = False, lastUsed = 46\<rparr>]
   \<and> pool (fst (release 1 ((quiet_world 40)\<lparr>lapse := (\<lambda>k. 3)\<rparr>) pool2)) =
     [\<lparr>client = 0, inUse = True, lastUsed = 5\<rparr>, \<lparr>client = 1, inUse = False, lastUsed = 43\<rparr>]
   \<and> getStats (fst (release 1 ((quiet_world 40)\<lparr>lapse := (\<lambda>k. 3)\<rparr>) pool2)) =
     \<lparr>total = 2, inUse = 1, available = 1\<rparr>"
  using release_twice [of 1 "(quiet_world 40)\<lparr>lapse := (\<lambda>k. 3)\<rparr>" pool2]
  by (simp add: pool2_def quiet_world_def release_def Date_now_def Let_def getStats_def)

section \<open>Acquiring\<close>

lemma Date_now_fields [simp]:
  "now (snd (Date_now w)) = fst (Date_now w)"
  "ticks (snd (Date_now w)) = Suc (ticks w)"
  "lapse (snd (Date_now w)) = lapse w"
  "adjust (snd (Date_now w)) = tl (adjust w)"
  "number_text (snd (Date_now w)) = number_text w"
  "conns (snd (Date_now w)) = conns w"
  "connect_error (snd (Date_now w)) = connect_error w"
  "closed (snd (Date_now w)) = closed w"
  "close_error (snd (Date_now w)) = close_error w"
  "awaits (snd (Date_now w)) = awaits w"
  "others (snd (Date_now w)) = others w"
  by (simp_all add: Date_now_def Let_def)

lemma Date_now_fst:
  "fst (Date_now w) =
     now w + int (lapse w (ticks w)) + (case adjust w of [] \<Rightarrow> 0 | a # rest \<Rightarrow> a)"
  by (simp add: Date_now_def Let_def)


lemma acquire_loop_expired:
  "timeout p \<le> fst (Date_now w) - start \<Longrightarrow>
   acquire_loop start w p =
     (Inl (DatabaseError (acquire_message (number_text w) (timeout p)) None), p,
      snd (Date_now w))"
  by (subst acquire_loop.simps) (simp add: case_prod_beta)

lemma acquire_loop_found:
  "fst (Date_now w) - start < timeout p \<Longrightarrow>
   find_idx (\<lambda>conn. \<not> inUse conn) (pool p) = Some i \<Longrightarrow>
   acquire_loop start w p =
     (Inr (client (pool p ! i)),
      p\<lparr>pool := (pool p)[i := (pool p ! i)\<lparr>inUse := True,
           lastUsed := fst (Date_now (snd (Date_now w)))\<rparr>]\<rparr>,
      snd (Date_now (snd (Date_now w))))"
  by (subst acquire_loop.simps) (simp add: case_prod_beta)

lemma acquire_loop_wait:
  "fst (Date_now w) - start < timeout p \<Longrightarrow>
   find_idx (\<lambda>conn. \<not> inUse conn) (pool p) = None \<Longrightarrow>
   acquire_loop start w p =
     acquire_loop start (snd (setTimeout_wait 10 (snd (Date_now w)) p))
       (fst (setTimeout_wait 10 (snd (Date_now w)) p))"
  by (subst acquire_loop.simps) (simp add: case_prod_beta)




lemma setTimeout_wait_fields [simp]:
  "fst (setTimeout_wait ms w p) = others_run (others w) (awaits w) (Suc 0) p"
  "awaits (snd (setTimeout_wait ms w p)) = Suc (awaits w)"
  "others (snd (setTimeout_wait ms w p)) = others w"
  "now (snd (setTimeout_wait ms w p)) = now w + int ms"
  "ticks (snd (setTimeout_wait ms w p)) = ticks w"
  "lapse (snd (setTimeout_wait ms w p)) = lapse w"
  "adjust (snd (setTimeout_wait ms w p)) = adjust w"
  "number_text (snd (setTimeout_wait ms w p)) = number_text w"
  by (simp_all add: setTimeout_wait_def suspend_def Let_def)

lemma others_run_readonly [simp]:
  "timeout (others_run f k n p) = timeout p"
  "maxSize (others_run f k n p) = maxSize p"
  by (induction f k n p rule: others_run.induct) simp_all

lemma others_run_shift:
  "others_run f (Suc k) n (others_run f k (Suc 0) p) = others_run f k (Suc n) p"
  by simp

lemma others_run_quiet: "(\<And>k s. f k s = s) \<Longrightarrow> others_run f k n p = p"
  by (induction f k n p rule: others_run.induct) simp_all

lemma acquire_loop_spec:
  "acquire_loop start w p = (r, p', w') \<Longrightarrow>
     awaits w \<le> awaits w' \<and> others w' = others w
     \<and> (case r of
          Inl e \<Rightarrow>
            e = DatabaseError (acquire_message (number_text w) (timeout p)) None
            \<and> p' = others_run (others w) (awaits w) (awaits w' - awaits w) p
        | Inr c \<Rightarrow>
            (\<exists>q i. q = others_run (others w) (awaits w) (awaits w' - awaits w) p
               \<and> find_idx (\<lambda>conn. \<not> inUse conn) (pool q) = Some i
               \<and> c = client (pool q ! i)
               \<and> p' = q\<lparr>pool := (pool q)[i := (pool q ! i)\<lparr>inUse := True, lastUsed := now w'\<rparr>]\<rparr>))"
proof (induction start w p arbitrary: r p' w' rule: acquire_loop.induct)
  case (1 start w p)
  let ?w1 = "snd (Date_now w)"
  show ?case
  proof (cases "fst (Date_now w) - start < timeout p")
    case False
    then have "acquire_loop start w p =
        (Inl (DatabaseError (acquire_message (number_text w) (timeout p)) None), p, ?w1)"
      by (simp add: acquire_loop_expired)
    with "1.prems" have "r = Inl (DatabaseError (acquire_message (number_text w) (timeout p)) None)"
      "p' = p" "w' = ?w1"
      by auto
    then show ?thesis by simp
  next
    case True
    show ?thesis
    proof (cases "find_idx (\<lambda>conn. \<not> inUse conn) (pool p)")
      case (Some i)
      from acquire_loop_found [OF True Some] "1.prems"
      have "r = Inr (client (pool p ! i))"
        "p' = p\<lparr>pool := (pool p)[i := (pool p ! i)\<lparr>inUse := True,
           lastUsed := fst (Date_now ?w1)\<rparr>]\<rparr>"
        "w' = snd (Date_now ?w1)"
        by auto
      with Some show ?thesis by simp
    next
      case None
      let ?p2 = "fst (setTimeout_wait 10 ?w1 p)"
      let ?w2 = "snd (setTimeout_wait 10 ?w1 p)"
      have eq: "acquire_loop start ?w2 ?p2 = (r, p', w')"
        using acquire_loop_wait [OF True None] "1.prems" by simp
      have a: "(fst (Date_now w), ?w1) = Date_now w"
        by (rule prod.collapse)
      have b: "(?p2, ?w2) = setTimeout_wait 10 ?w1 p"
        by (rule prod.collapse)
      have ih: "awaits ?w2 \<le> awaits w' \<and> others w' = others ?w2
        \<and> (case r of
             Inl e \<Rightarrow>
               e = DatabaseError (acquire_message (number_text ?w2) (timeout ?p2)) None
               \<and> p' = others_run (others ?w2) (awaits ?w2) (awaits w' - awaits ?w2) ?p2
           | Inr c \<Rightarrow>
               (\<exists>q i. q = others_run (others ?w2) (awaits ?w2) (awaits w' - awaits ?w2) ?p2
                  \<and> find_idx (\<lambda>conn. \<not> inUse conn) (pool q) = Some i
                  \<and> c = client (pool q ! i)
                  \<and> p' = q\<lparr>pool := (pool q)[i := (pool q ! i)\<lparr>inUse := True, lastUsed := now w'\<rparr>]\<rparr>))"
        by (rule "1.IH" [OF a True None b eq])
      then have le: "Suc (awaits w) \<le> awaits w'" by simp
      then obtain n where n: "awaits w' - awaits w = Suc n" "awaits w' - Suc (awaits w) = n"
        by (metis Suc_diff_le diff_Suc_Suc)
      from ih le show ?thesis
        by (simp add: n others_run_shift del: others_run.simps split: sum.splits)
    qed
  qed
qed

section \<open>Initializing\<close>

lemma init_loop_done:
  "\<not> int i < maxSize p \<Longrightarrow> init_loop i w p = (Inr (), p, w)"
  by (subst init_loop.simps) simp

lemma init_loop_refused:
  "int i < maxSize p \<Longrightarrow> connect_error w (conns w) = Some e \<Longrightarrow>
   init_loop i w p = (Inl e, p, w\<lparr>conns := Suc (conns w)\<rparr>)"
  by (subst init_loop.simps) (simp add: createConnection_def Let_def)

lemma init_loop_pushed:
  "int i < maxSize p \<Longrightarrow> connect_error w (conns w) = None \<Longrightarrow>
   init_loop i w p =
     init_loop (Suc i) (snd (Date_now (w\<lparr>conns := Suc (conns w)\<rparr>)))
       (p\<lparr>pool := pool p @
          [\<lparr>client = conns w, inUse = False,
            lastUsed = fst (Date_now (w\<lparr>conns := Suc (conns w)\<rparr>))\<rparr>]\<rparr>)"
  by (subst init_loop.simps) (simp add: createConnection_def Let_def case_prod_beta)

lemma init_loop_spec:
  "init_loop i w p = (r, p', w') \<Longrightarrow>
     (\<exists>es. p' = p\<lparr>pool := pool p @ es\<rparr>
        \<and> (\<forall>e\<in>set es. \<not> inUse e)
        \<and> map client es = [conns w ..< conns w + length es]
        \<and> (\<forall>k<length es. connect_error w (conns w + k) = None)
        \<and> (case r of
             Inr u \<Rightarrow> length es = nat (maxSize p - int i) \<and> conns w' = conns w + length es
           | Inl e \<Rightarrow> length es < nat (maxSize p - int i)
               \<and> connect_error w (conns w + length es) = Some e
               \<and> conns w' = Suc (conns w + length es)))
     \<and> awaits w' = awaits w \<and> others w' = others w \<and> closed w' = closed w
     \<and> close_error w' = close_error w \<and> connect_error w' = connect_error w
     \<and> lapse w' = lapse w"
proof (induction i w p arbitrary: r p' w' rule: init_loop.induct)
  case (1 i w p)
  show ?case
  proof (cases "int i < maxSize p")
    case False
    with "1.prems" have "r = Inr ()" "p' = p" "w' = w"
      by (auto simp: init_loop_done)
    then have "p' = p\<lparr>pool := pool p @ []\<rparr>" by simp
    with False \<open>r = Inr ()\<close> \<open>w' = w\<close> show ?thesis
      by (intro conjI exI [where x = "[]"]) auto
  next
    case True
    show ?thesis
    proof (cases "connect_error w (conns w)")
      case (Some e)
      with True "1.prems" have "r = Inl e" "p' = p" "w' = w\<lparr>conns := Suc (conns w)\<rparr>"
        by (auto simp: init_loop_refused)
      moreover from this have "p' = p\<lparr>pool := pool p @ []\<rparr>" by simp
      ultimately show ?thesis using True Some
        by (intro conjI exI [where x = "[]"]) auto
    next
      case None
      let ?w1 = "w\<lparr>conns := Suc (conns w)\<rparr>"
      let ?w2 = "snd (Date_now ?w1)"
      let ?e = "\<lparr>client = conns w, inUse = False, lastUsed = fst (Date_now ?w1)\<rparr>"
      let ?p2 = "p\<lparr>pool := pool p @ [?e]\<rparr>"
      have eq: "init_loop (Suc i) ?w2 ?p2 = (r, p', w')"
        using init_loop_pushed [OF True None] "1.prems" by simp
      have c: "(Inr (conns w), ?w1) = createConnection w"
        using None by (simp add: createConnection_def Let_def)
      have d: "(fst (Date_now ?w1), ?w2) = Date_now ?w1"
        by (rule prod.collapse)
      from "1.IH" [OF True c refl d eq]
      obtain es where es: "p' = ?p2\<lparr>pool := pool ?p2 @ es\<rparr>"
        "\<forall>e\<in>set es. \<not> inUse e"
        "map client es = [conns ?w2 ..< conns ?w2 + length es]"
        "\<forall>k<length es. connect_error ?w2 (conns ?w2 + k) = None"
        "case r of
             Inr u \<Rightarrow> length es = nat (maxSize ?p2 - int (Suc i)) \<and> conns w' = conns ?w2 + length es
           | Inl e \<Rightarrow> length es < nat (maxSize ?p2 - int (Suc i))
               \<and> connect_error ?w2 (conns ?w2 + length es) = Some e
               \<and> conns w' = Suc (conns ?w2 + length es)"
        and rest: "awaits w' = awaits ?w2" "others w' = others ?w2" "closed w' = closed ?w2"
        "close_error w' = close_error ?w2" "connect_error w' = connect_error ?w2"
        "lapse w' = lapse ?w2"
        by blast
      have 1: "p' = p\<lparr>pool := pool p @ (?e # es)\<rparr>"
        using es(1) by simp
      have 2: "\<forall>e\<in>set (?e # es). \<not> inUse e"
        using es(2) by simp
      have 3: "map client (?e # es) = [conns w ..< conns w + length (?e # es)]"
      proof -
        have a: "map client es = [Suc (conns w) ..< Suc (conns w) + length es]"
          using es(3) by (simp del: upt_Suc)
        have b: "[conns w ..< conns w + Suc (length es)] =
            conns w # [Suc (conns w) ..< Suc (conns w) + length es]"
          by (subst upt_conv_Cons) (simp_all del: upt_Suc)
        show ?thesis
          using a b by (simp del: upt_Suc)
      qed
      have 4: "\<forall>k<length (?e # es). connect_error w (conns w + k) = None"
      proof (intro allI impI)
        fix k assume "k < length (?e # es)"
        then show "connect_error w (conns w + k) = None"
          using None es(4) by (cases k) auto
      qed
      have 5: "case r of
             Inr u \<Rightarrow> length (?e # es) = nat (maxSize p - int i) \<and> conns w' = conns w + length (?e # es)
           | Inl e \<Rightarrow> length (?e # es) < nat (maxSize p - int i)
               \<and> connect_error w (conns w + length (?e # es)) = Some e
               \<and> conns w' = Suc (conns w + length (?e # es))"
        using es(5) True by (auto split: sum.splits)
      from 1 2 3 4 5 rest show ?thesis
        by (intro conjI exI [where x = "?e # es"]) simp_all
    qed
  qed
qed


lemma initialize_noop: "initialized p \<Longrightarrow> initialize w p = (Inr (), p, w)"
  by (simp add: initialize_def)


lemma initialize_spec:
  assumes "\<not> initialized p" and "initialize w p = (r, p', w')"
  shows "\<exists>es. p' = p\<lparr>pool := pool p @ es, initialized := (r = Inr ())\<rparr>
           \<and> (\<forall>e\<in>set es. \<not> inUse e)
           \<and> map client es = [conns w ..< conns w + length es]
           \<and> (case r of
                Inr u \<Rightarrow> int (length es) = max 0 (maxSize p) \<and> conns w' = conns w + length es
              | Inl e \<Rightarrow> int (length es) < maxSize p
                  \<and> e = DatabaseError ''Failed to initialize connection pool''
                        (connect_error w (conns w + length es))
                  \<and> connect_error w (conns w + length es) \<noteq> None)"
    and "awaits w' = awaits w \<and> others w' = others w \<and> closed w' = closed w
         \<and> close_error w' = close_error w \<and> connect_error w' = connect_error w
         \<and> lapse w' = lapse w"
proof -
  obtain r0 p0 w0 where l: "init_loop 0 w p = (r0, p0, w0)"
    by (cases "init_loop 0 w p")
  from init_loop_spec [OF l]
  obtain es where es: "p0 = p\<lparr>pool := pool p @ es\<rparr>"
    "\<forall>e\<in>set es. \<not> inUse e"
    "map client es = [conns w ..< conns w + length es]"
    "case r0 of
       Inr u \<Rightarrow> length es = nat (maxSize p - int 0) \<and> conns w0 = conns w + length es
     | Inl e \<Rightarrow> length es < nat (maxSize p - int 0)
         \<and> connect_error w (conns w + length es) = Some e
         \<and> conns w0 = Suc (conns w + length es)"
    and rest: "awaits w0 = awaits w" "others w0 = others w" "closed w0 = closed w"
      "close_error w0 = close_error w" "connect_error w0 = connect_error w" "lapse w0 = lapse w"
    by blast
  have w: "w' = w0"
    using assms l by (auto simp: initialize_def split: sum.splits)
  show "awaits w' = awaits w \<and> others w' = others w \<and> closed w' = closed w
         \<and> close_error w' = close_error w \<and> connect_error w' = connect_error w
         \<and> lapse w' = lapse w"
    using rest w by simp
  show "\<exists>es. p' = p\<lparr>pool := pool p @ es, initialized := (r = Inr ())\<rparr>
           \<and> (\<forall>e\<in>set es. \<not> inUse e)
           \<and> map client es = [conns w ..< conns w + length es]
           \<and> (case r of
                Inr u \<Rightarrow> int (length es) = max 0 (maxSize p) \<and> conns w' = conns w + length es
              | Inl e \<Rightarrow> int (length es) < maxSize p
                  \<and> e = DatabaseError ''Failed to initialize connection pool''
                        (connect_error w (conns w + length es))
                  \<and> connect_error w (conns w + length es) \<noteq> None)"
  proof (cases r0)
    case (Inr u)
    with assms l es(1) have "r = Inr ()" "p' = p\<lparr>pool := pool p @ es, initialized := True\<rparr>"
      by (auto simp: initialize_def)
    with es Inr w show ?thesis
      by (intro exI [where x = es]) (auto simp: max_def)
  next
    case (Inl e)
    with assms l es(1)
    have "r = Inl (DatabaseError ''Failed to initialize connection pool'' (Some e))"
      "p' = p\<lparr>pool := pool p @ es, initialized := False\<rparr>"
      by (auto simp: initialize_def)
    with es Inl w show ?thesis
      by (intro exI [where x = es]) auto
  qed
qed

text \<open>
  One call of \<open>initialize\<close> that nothing interrupts. On an initialized pool it
  returns at once: same pool, same world, no client made. Otherwise it appends one entry
  with \<open>inUse = false\<close> for each client it made, in order; it returns normally with
  \<open>initialized = true\<close> exactly when all \<open>maxSize\<close> handshakes succeeded, and a
  refused handshake ends it with a \<open>DatabaseError\<close> around the cause and
  \<open>initialized\<close> still false, the entries pushed so far left in the array. On a new
  pool a call that succeeds, followed by another, leaves \<open>maxSize\<close> entries, the
  second call having done nothing.
\<close>

lemma initialize_sequential:
  "(initialized p \<longrightarrow> initialize w p = (Inr (), p, w))
   \<and> (\<not> initialized p \<longrightarrow>
        (case initialize w p of
           (r, p', w') \<Rightarrow>
             (\<exists>es. p' = p\<lparr>pool := pool p @ es, initialized := (r = Inr ())\<rparr>
                \<and> (\<forall>e\<in>set es. \<not> inUse e)
                \<and> map client es = [conns w ..< conns w + length es]
                \<and> (case r of
                     Inr u \<Rightarrow> int (length es) = max 0 (maxSize p) \<and> conns w' = conns w + length es
                   | Inl e \<Rightarrow> int (length es) < maxSize p
                       \<and> e = DatabaseError ''Failed to initialize connection pool''
                             (connect_error w (conns w + length es))
                       \<and> connect_error w (conns w + length es) \<noteq> None))))
   \<and> (case initialize w (new_pool n tmo) of
        (Inl e, p1, w1) \<Rightarrow> \<not> initialized p1
      | (Inr u, p1, w1) \<Rightarrow>
          initialized p1 \<and> initialize w1 p1 = (Inr (), p1, w1)
          \<and> int (length (pool p1)) = max 0 n \<and> conns w1 = conns w + nat n)"
proof (intro conjI impI)
  assume "initialized p"
  then show "initialize w p = (Inr (), p, w)" by (rule initialize_noop)
next
  assume n: "\<not> initialized p"
  obtain r p' w' where i: "initialize w p = (r, p', w')" by (cases "initialize w p")
  from initialize_spec(1) [OF n i] i
  show "case initialize w p of
           (r, p', w') \<Rightarrow>
             (\<exists>es. p' = p\<lparr>pool := pool p @ es, initialized := (r = Inr ())\<rparr>
                \<and> (\<forall>e\<in>set es. \<not> inUse e)
                \<and> map client es = [conns w ..< conns w + length es]
                \<and> (case r of
                     Inr u \<Rightarrow> int (length es) = max 0 (maxSize p) \<and> conns w' = conns w + length es
                   | Inl e \<Rightarrow> int (length es) < maxSize p
                       \<and> e = DatabaseError ''Failed to initialize connection pool''
                             (connect_error w (conns w + length es))
                       \<and> connect_error w (conns w + length es) \<noteq> None))"
    by simp
next
  let ?p = "new_pool n tmo"
  have n: "\<not> initialized ?p" by (simp add: new_pool_def)
  obtain r p1 w1 where i: "initialize w ?p = (r, p1, w1)" by (cases "initialize w ?p")
  from initialize_spec(1) [OF n i]
  obtain es where es: "p1 = ?p\<lparr>pool := pool ?p @ es, initialized := (r = Inr ())\<rparr>"
    "case r of
       Inr u \<Rightarrow> int (length es) = max 0 (maxSize ?p) \<and> conns w1 = conns w + length es
     | Inl e \<Rightarrow> int (length es) < maxSize ?p
         \<and> e = DatabaseError ''Failed to initialize connection pool''
               (connect_error w (conns w + length es))
         \<and> connect_error w (conns w + length es) \<noteq> None"
    by blast
  show "case initialize w ?p of
        (Inl e, p1, w1) \<Rightarrow> \<not> initialized p1
      | (Inr u, p1, w1) \<Rightarrow>
          initialized p1 \<and> initialize w1 p1 = (Inr (), p1, w1)
          \<and> int (length (pool p1)) = max 0 n \<and> conns w1 = conns w + nat n"
  proof (cases r)
    case (Inl e)
    with es(1) i show ?thesis by simp
  next
    case (Inr u)
    with es have "initialized p1" "int (length (pool p1)) = max 0 n"
      "conns w1 = conns w + length es" "int (length es) = max 0 n"
      by (simp_all add: new_pool_def)
    moreover from this have "conns w1 = conns w + nat n" by (simp add: max_def split: if_splits)
    ultimately show ?thesis using i Inr by (simp add: initialize_noop)
  qed
qed

lemma initialize_quiet:
  "initialize (quiet_world 0) (new_pool 2 1000) =
     (Inr (),
      \<lparr>pool = [\<lparr>client = 0, inUse = False, lastUsed = 0\<rparr>, \<lparr>client = 1, inUse = False, lastUsed = 0\<rparr>],
       maxSize = 2, timeout = 1000, initialized = True\<rparr>,
      (quiet_world 0)\<lparr>ticks := 2, conns := 2\<rparr>)"
  by (simp add: initialize_def init_loop_pushed init_loop_refused init_loop_done quiet_world_def
      new_pool_def Date_now_def Let_def)

lemma initialize_refused:
  "initialize refusing_world (new_pool 2 1000) =
     (Inl (DatabaseError ''Failed to initialize connection pool'' (Some (Thrown ''ECONNREFUSED''))),
      \<lparr>pool = [\<lparr>client = 0, inUse = False, lastUsed = 0\<rparr>],
       maxSize = 2, timeout = 1000, initialized = False\<rparr>,
      refusing_world\<lparr>ticks := 1, conns := 2\<rparr>)"
  by (simp add: initialize_def init_loop_pushed init_loop_refused init_loop_done quiet_world_def
      refusing_world_def new_pool_def Date_now_def Let_def)

lemma initialize_sequential_example:
  "initialize ((quiet_world 0)\<lparr>ticks := 2, conns := 2\<rparr>)
      (fst (snd (initialize (quiet_world 0) (new_pool 2 1000)))) =
     (Inr (),
      \<lparr>pool = [\<lparr>client = 0, inUse = False, lastUsed = 0\<rparr>, \<lparr>client = 1, inUse = False, lastUsed = 0\<rparr>],
       maxSize = 2, timeout = 1000, initialized = True\<rparr>,
      (quiet_world 0)\<lparr>ticks := 2, conns := 2\<rparr>)
   \<and> fst (initialize refusing_world (new_pool 2 1000)) =
        Inl (DatabaseError ''Failed to initialize connection pool'' (Some (Thrown ''ECONNREFUSED'')))
   \<and> \<not> initialized (fst (snd (initialize refusing_world (new_pool 2 1000))))"
proof -
  have "case initialize (quiet_world 0) (new_pool 2 1000) of
        (Inl e, p1, w1) \<Rightarrow> \<not> initialized p1
      | (Inr u, p1, w1) \<Rightarrow>
          initialized p1 \<and> initialize w1 p1 = (Inr (), p1, w1)
          \<and> int (length (pool p1)) = max 0 2 \<and> conns w1 = conns (quiet_world 0) + nat 2"
    by (rule initialize_sequential [THEN conjunct2, THEN conjunct2])
  then have a: "initialize ((quiet_world 0)\<lparr>ticks := 2, conns := 2\<rparr>)
      (fst (snd (initialize (quiet_world 0) (new_pool 2 1000)))) =
     (Inr (),
      \<lparr>pool = [\<lparr>client = 0, inUse = False, lastUsed = 0\<rparr>, \<lparr>client = 1, inUse = False, lastUsed = 0\<rparr>],
       maxSize = 2, timeout = 1000, initialized = True\<rparr>,
      (quiet_world 0)\<lparr>ticks := 2, conns := 2\<rparr>)"
    by (simp add: initialize_quiet)
  have "case initialize refusing_world (new_pool 2 1000) of
        (Inl e, p1, w1) \<Rightarrow> \<not> initialized p1
      | (Inr u, p1, w1) \<Rightarrow>
          initialized p1 \<and> initialize w1 p1 = (Inr (), p1, w1)
          \<and> int (length (pool p1)) = max 0 2 \<and> conns w1 = conns refusing_world + nat 2"
    by (rule initialize_sequential [THEN conjunct2, THEN conjunct2])
  then have b: "\<not> initialized (fst (snd (initialize refusing_world (new_pool 2 1000))))"
    by (simp add: initialize_refused)
  from a b show ?thesis
    by (simp add: initialize_refused)
qed

text \<open>
  The stretches of a single call, run to the end, are the uninterrupted call.
\<close>

lemma interleave_done:
  "t = InitReturned \<or> t = InitThrew e \<Longrightarrow>
   interleave (replicate n 0) [t] w p = ([t], p, w)"
  by (induction n) auto

lemma alone_loop:
  "int i < maxSize p \<Longrightarrow> init_loop i w p = (r, p', w') \<Longrightarrow>
   nat (maxSize p - int i) \<le> n \<Longrightarrow>
   interleave (replicate n 0) [Connecting i (conns w)] (w\<lparr>conns := Suc (conns w)\<rparr>) p =
     ([case r of
        Inr u \<Rightarrow> InitReturned
      | Inl e \<Rightarrow> InitThrew (DatabaseError ''Failed to initialize connection pool'' (Some e))],
      (case r of Inr u \<Rightarrow> p'\<lparr>initialized := True\<rparr> | Inl e \<Rightarrow> p'), w')"
proof (induction i w p arbitrary: n rule: init_loop.induct)
  case (1 i w p)
  from "1.prems" obtain m where n: "n = Suc m"
    by (cases n) auto
  let ?w1 = "w\<lparr>conns := Suc (conns w)\<rparr>"
  show ?case
  proof (cases "connect_error w (conns w)")
    case (Some e)
    with "1.prems" have "r = Inl e" "p' = p" "w' = ?w1"
      by (auto simp: init_loop_refused)
    with Some n show ?thesis
      by (simp add: interleave_done)
  next
    case None
    let ?w2 = "snd (Date_now ?w1)"
    let ?e = "\<lparr>client = conns w, inUse = False, lastUsed = fst (Date_now ?w1)\<rparr>"
    let ?p2 = "p\<lparr>pool := pool p @ [?e]\<rparr>"
    have eq: "init_loop (Suc i) ?w2 ?p2 = (r, p', w')"
      using init_loop_pushed [OF "1.prems"(1) None] "1.prems"(2) by simp
    have c: "(Inr (conns w), ?w1) = createConnection w"
      using None by (simp add: createConnection_def Let_def)
    have d: "(fst (Date_now ?w1), ?w2) = Date_now ?w1"
      by (rule prod.collapse)
    have step: "interleave (replicate n 0) [Connecting i (conns w)] ?w1 p =
        (case init_enter (Suc i) ?w2 ?p2 of
           (t, p1, w1) \<Rightarrow> interleave (replicate m 0) [t] w1 p1)"
      using None n by (simp add: case_prod_beta)
    show ?thesis
    proof (cases "int (Suc i) < maxSize p")
      case True
      then have t: "int (Suc i) < maxSize ?p2" by simp
      have m: "nat (maxSize ?p2 - int (Suc i)) \<le> m"
        using "1.prems"(3) n by simp
      have "interleave (replicate m 0) [Connecting (Suc i) (conns ?w2)]
          (?w2\<lparr>conns := Suc (conns ?w2)\<rparr>) ?p2 =
        ([case r of
        Inr u \<Rightarrow> InitReturned
      | Inl e \<Rightarrow> InitThrew (DatabaseError ''Failed to initialize connection pool'' (Some e))],
         (case r of Inr u \<Rightarrow> p'\<lparr>initialized := True\<rparr> | Inl e \<Rightarrow> p'), w')"
        by (rule "1.IH" [OF "1.prems"(1) c refl d t eq m])
      with step True show ?thesis
        by (simp add: init_enter_def)
    next
      case False
      with eq have "r = Inr ()" "p' = ?p2" "w' = ?w2"
        by (auto simp: init_loop_done)
      with step False show ?thesis
        by (simp add: init_enter_def interleave_done)
    qed
  qed
qed

lemma alone_is_initialize:
  assumes "initialize w p = (r, p', w')" and "nat (maxSize p) < n"
  shows "interleave (replicate n 0) [InitCalled] w p = ([case r of Inr u \<Rightarrow> InitReturned | Inl e \<Rightarrow> InitThrew e], p', w')"
proof -
  from assms(2) obtain m where n: "n = Suc m" "nat (maxSize p) \<le> m"
    by (cases n) auto
  show ?thesis
  proof (cases "initialized p")
    case True
    with assms(1) have "r = Inr ()" "p' = p" "w' = w"
      by (auto simp: initialize_noop)
    with True n show ?thesis
      by (simp add: interleave_done)
  next
    case False
    obtain r0 p0 w0 where l: "init_loop 0 w p = (r0, p0, w0)"
      by (cases "init_loop 0 w p")
    show ?thesis
    proof (cases "int 0 < maxSize p")
      case True
      have "nat (maxSize p - int 0) \<le> m" using n by simp
      from alone_loop [OF True l this] False True n l assms(1) show ?thesis
        by (cases r0) (auto simp: initialize_def init_enter_def)
    next
      case f: False
      with l have "r0 = Inr ()" "p0 = p" "w0 = w"
        by (auto simp: init_loop_done)
      with l False f n assms(1) show ?thesis
        by (auto simp: initialize_def init_enter_def interleave_done)
    qed
  qed
qed

text \<open>
  C5. Calling \<open>initialize\<close> twice does not always leave \<open>maxSize\<close> connections.
  The flag \<open>initialized\<close> is tested at the start of a call and set at its end, with
  every \<open>await\<close> in between: a second call that starts while the first is suspended
  passes the test too. Here two calls on a new pool with \<open>maxSize = 2\<close> take turns;
  both return normally, and the pool has four entries.
\<close>

theorem initialize_overlapping_doubles:
  "interleave [0, 1, 0, 1, 0, 1] [InitCalled, InitCalled] (quiet_world 0) (new_pool 2 1000) =
     ([InitReturned, InitReturned],
      \<lparr>pool = [\<lparr>client = 0, inUse = False, lastUsed = 0\<rparr>,
               \<lparr>client = 1, inUse = False, lastUsed = 0\<rparr>,
               \<lparr>client = 2, inUse = False, lastUsed = 0\<rparr>,
               \<lparr>client = 3, inUse = False, lastUsed = 0\<rparr>],
       maxSize = 2, timeout = 1000, initialized = True\<rparr>,
      (quiet_world 0)\<lparr>ticks := 4, conns := 4\<rparr>)"
  by (simp add: init_enter_def new_pool_def quiet_world_def Date_now_def Let_def)

section \<open>Acquiring, with initialization and waiting\<close>
















section \<open>Scoped use of a connection\<close>

lemma release_frees:
  assumes "distinct (map client (pool p))"
  shows "\<forall>conn\<in>set (pool (fst (release c w p))). client conn = c \<longrightarrow> \<not> inUse conn"
proof (cases "find_idx (\<lambda>conn. client conn = c) (pool p)")
  case None
  then have "release c w p = (p, w)" by (simp add: release_def)
  moreover from None have "\<forall>conn\<in>set (pool p). client conn \<noteq> c"
    by (simp add: find_idx_None)
  ultimately show ?thesis by simp
next
  case (Some i)
  then have i: "i < length (pool p)" "client (pool p ! i) = c"
    by (auto dest: find_idx_Some)
  let ?e = "(pool p ! i)\<lparr>inUse := False, lastUsed := fst (Date_now w)\<rparr>"
  have r: "pool (fst (release c w p)) = (pool p)[i := ?e]"
    using Some by (simp add: release_def case_prod_beta)
  show ?thesis
  proof (intro ballI impI)
    fix conn
    assume "conn \<in> set (pool (fst (release c w p)))" and c: "client conn = c"
    then obtain k where k: "k < length (pool p)" "conn = (pool p)[i := ?e] ! k"
      by (auto simp: r in_set_conv_nth)
    show "\<not> inUse conn"
    proof (cases "k = i")
      case True
      with k i show ?thesis by simp
    next
      case False
      with k have "conn = pool p ! k" by simp
      with c i k have "map client (pool p) ! k = map client (pool p) ! i" by simp
      moreover have "k < length (map client (pool p))" "i < length (map client (pool p))"
        using k i by simp_all
      ultimately have "k = i"
        using assms by (simp only: nth_eq_iff_index_eq)
      with False show ?thesis by simp
    qed
  qed
qed

text \<open>
  C4. \<open>withConnection\<close> first acquires; if that throws, the error is the result and
  the callback is not run. Otherwise the callback gets the acquired client, and whatever
  it does, return a value or throw, that outcome is the result of \<open>withConnection\<close>
  as it is, and the final states are those of \<open>release\<close> run on the states the
  callback left: the first entry holding the client is free afterwards, and so is every
  entry holding it when the clients of the pool are distinct.
\<close>

theorem withConnection_releases:
  "(case acquire w p of
      (Inl e, p1, w1) \<Rightarrow> withConnection fn w p = (Inl e, p1, w1)
    | (Inr c, p1, w1) \<Rightarrow>
        (case fn c w1 p1 of
           (r, p2, w2) \<Rightarrow>
             withConnection fn w p = (r, release c w2 p2)
             \<and> (\<forall>i. i < length (pool p2) \<and> client (pool p2 ! i) = c
                    \<and> (\<forall>j<i. client (pool p2 ! j) \<noteq> c) \<longrightarrow>
                  \<not> inUse (pool (fst (release c w2 p2)) ! i))
             \<and> (distinct (map client (pool p2)) \<longrightarrow>
                  (\<forall>conn\<in>set (pool (fst (release c w2 p2))). client conn = c \<longrightarrow> \<not> inUse conn))))"
proof -
  obtain a p1 w1 where a: "acquire w p = (a, p1, w1)" by (cases "acquire w p")
  show ?thesis
  proof (cases a)
    case (Inl e)
    with a show ?thesis by (simp add: withConnection_def)
  next
    case (Inr c)
    obtain r p2 w2 where f: "fn c w1 p1 = (r, p2, w2)" by (cases "fn c w1 p1")
    have 1: "withConnection fn w p = (r, release c w2 p2)"
      using a Inr f by (simp add: withConnection_def case_prod_beta)
    have 2: "\<forall>i. i < length (pool p2) \<and> client (pool p2 ! i) = c
                    \<and> (\<forall>j<i. client (pool p2 ! j) \<noteq> c) \<longrightarrow>
                  \<not> inUse (pool (fst (release c w2 p2)) ! i)"
    proof (intro allI impI)
      fix i
      assume h: "i < length (pool p2) \<and> client (pool p2 ! i) = c
                    \<and> (\<forall>j<i. client (pool p2 ! j) \<noteq> c)"
      then have "find_idx (\<lambda>conn. client conn = c) (pool p2) = Some i"
        by (intro find_idx_first) auto
      with h show "\<not> inUse (pool (fst (release c w2 p2)) ! i)"
        by (simp add: release_def case_prod_beta)
    qed
    have 3: "distinct (map client (pool p2)) \<longrightarrow>
                  (\<forall>conn\<in>set (pool (fst (release c w2 p2))). client conn = c \<longrightarrow> \<not> inUse conn)"
      using release_frees by blast
    from 1 2 3 a Inr f show ?thesis by simp
  qed
qed

lemma acquire_new_one:
  "acquire (quiet_world 0) (new_pool 1 1000) =
     (Inr 0,
      \<lparr>pool = [\<lparr>client = 0, inUse = True, lastUsed = 0\<rparr>], maxSize = 1, timeout = 1000,
       initialized = True\<rparr>,
      (quiet_world 0)\<lparr>ticks := 4, conns := 1\<rparr>)"
  by (simp add: acquire_def initialize_def init_loop_pushed init_loop_done acquire_loop.simps
      new_pool_def quiet_world_def Date_now_def Let_def)

theorem withConnection_releases_witness:
  "withConnection fn_throws (quiet_world 0) (new_pool 1 1000) =
     (Inl (Thrown ''query failed''),
      \<lparr>pool = [\<lparr>client = 0, inUse = False, lastUsed = 0\<rparr>], maxSize = 1, timeout = 1000,
       initialized = True\<rparr>,
      (quiet_world 0)\<lparr>ticks := 5, conns := 1\<rparr>)
   \<and> withConnection fn_returns (quiet_world 0) (new_pool 1 1000) =
     (Inr 41,
      \<lparr>pool = [\<lparr>client = 0, inUse = False, lastUsed = 0\<rparr>], maxSize = 1, timeout = 1000,
       initialized = True\<rparr>,
      (quiet_world 0)\<lparr>ticks := 5, conns := 1\<rparr>)"
proof -
  have "case fn_throws 0
            ((quiet_world 0)\<lparr>ticks := 4, conns := 1\<rparr>)
            \<lparr>pool = [\<lparr>client = 0, inUse = True, lastUsed = 0\<rparr>], maxSize = 1, timeout = 1000,
             initialized = True\<rparr> of
           (r, p2, w2) \<Rightarrow>
             withConnection fn_throws (quiet_world 0) (new_pool 1 1000) = (r, release 0 w2 p2)
             \<and> (\<forall>i. i < length (pool p2) \<and> client (pool p2 ! i) = 0
                    \<and> (\<forall>j<i. client (pool p2 ! j) \<noteq> 0) \<longrightarrow>
                  \<not> inUse (pool (fst (release 0 w2 p2)) ! i))
             \<and> (distinct (map client (pool p2)) \<longrightarrow>
                  (\<forall>conn\<in>set (pool (fst (release 0 w2 p2))). client conn = 0 \<longrightarrow> \<not> inUse conn))"
    using withConnection_releases [where w = "quiet_world 0" and p = "new_pool 1 1000" and fn = fn_throws]
    by (simp only: acquire_new_one prod.case sum.case)
  then have t: "withConnection fn_throws (quiet_world 0) (new_pool 1 1000) =
      (Inl (Thrown ''query failed''),
       release 0 ((quiet_world 0)\<lparr>ticks := 4, conns := 1\<rparr>)
         \<lparr>pool = [\<lparr>client = 0, inUse = True, lastUsed = 0\<rparr>], maxSize = 1, timeout = 1000,
          initialized = True\<rparr>)"
    by (simp add: fn_throws_def)
  have "case fn_returns 0
            ((quiet_world 0)\<lparr>ticks := 4, conns := 1\<rparr>)
            \<lparr>pool = [\<lparr>client = 0, inUse = True, lastUsed = 0\<rparr>], maxSize = 1, timeout = 1000,
             initialized = True\<rparr> of
           (r, p2, w2) \<Rightarrow>
             withConnection fn_returns (quiet_world 0) (new_pool 1 1000) = (r, release 0 w2 p2)
             \<and> (\<forall>i. i < length (pool p2) \<and> client (pool p2 ! i) = 0
                    \<and> (\<forall>j<i. client (pool p2 ! j) \<noteq> 0) \<longrightarrow>
                  \<not> inUse (pool (fst (release 0 w2 p2)) ! i))
             \<and> (distinct (map client (pool p2)) \<longrightarrow>
                  (\<forall>conn\<in>set (pool (fst (release 0 w2 p2))). client conn = 0 \<longrightarrow> \<not> inUse conn))"
    using withConnection_releases [where w = "quiet_world 0" and p = "new_pool 1 1000" and fn = fn_returns]
    by (simp only: acquire_new_one prod.case sum.case)
  then have r: "withConnection fn_returns (quiet_world 0) (new_pool 1 1000) =
      (Inr 41,
       release 0 ((quiet_world 0)\<lparr>ticks := 4, conns := 1\<rparr>)
         \<lparr>pool = [\<lparr>client = 0, inUse = True, lastUsed = 0\<rparr>], maxSize = 1, timeout = 1000,
          initialized = True\<rparr>)"
    by (simp add: fn_returns_def)
  have "release 0 ((quiet_world 0)\<lparr>ticks := 4, conns := 1\<rparr>)
         \<lparr>pool = [\<lparr>client = 0, inUse = True, lastUsed = 0\<rparr>], maxSize = 1, timeout = 1000,
          initialized = True\<rparr> =
      (\<lparr>pool = [\<lparr>client = 0, inUse = False, lastUsed = 0\<rparr>], maxSize = 1, timeout = 1000,
        initialized = True\<rparr>,
       (quiet_world 0)\<lparr>ticks := 5, conns := 1\<rparr>)"
    by (simp add: release_def quiet_world_def Date_now_def Let_def)
  with t r show ?thesis by simp
qed

section \<open>Closing\<close>

lemma close_client_fields [simp]:
  "closed (snd (close_client c w)) = closed w @ [c]"
  "close_error (snd (close_client c w)) = close_error w"
  "fst (close_client c w) =
     (case close_error w (length (closed w)) of Some e \<Rightarrow> Inl e | None \<Rightarrow> Inr ())"
  by (simp_all add: close_client_def Let_def split: option.splits)

lemma close_loop_spec:
  "close_loop es w = (r, w') \<Longrightarrow>
     close_error w' = close_error w
     \<and> (case r of
          Inr u \<Rightarrow>
            closed w' = closed w @ map client es
            \<and> (\<forall>k<length es. close_error w (length (closed w) + k) = None)
        | Inl e \<Rightarrow>
            (\<exists>k<length es.
               close_error w (length (closed w) + k) = Some e
               \<and> (\<forall>j<k. close_error w (length (closed w) + j) = None)
               \<and> closed w' = closed w @ map client (take (Suc k) es)))"
proof (induction es arbitrary: w r w')
  case Nil
  then show ?case by auto
next
  case (Cons conn rest)
  let ?w1 = "snd (close_client (client conn) w)"
  show ?case
  proof (cases "close_error w (length (closed w))")
    case (Some e)
    then have "close_loop (conn # rest) w = (Inl e, ?w1)"
      by (simp add: case_prod_beta)
    with Cons.prems have "r = Inl e" "w' = ?w1" by auto
    with Some show ?thesis
      by (auto intro!: exI [where x = 0])
  next
    case None
    then have "close_loop (conn # rest) w = close_loop rest ?w1"
      by (simp add: case_prod_beta)
    with Cons.prems have l: "close_loop rest ?w1 = (r, w')" by simp
    note ih = Cons.IH [OF l]
    show ?thesis
    proof (cases r)
      case (Inr u)
      with ih have c: "closed w' = closed w @ map client (conn # rest)"
        and n: "\<forall>k<length rest. close_error w (Suc (length (closed w)) + k) = None"
        and ce: "close_error w' = close_error w"
        by simp_all
      have "\<forall>k<length (conn # rest). close_error w (length (closed w) + k) = None"
      proof (intro allI impI)
        fix k assume "k < length (conn # rest)"
        then show "close_error w (length (closed w) + k) = None"
          using None n by (cases k) auto
      qed
      with c ce Inr show ?thesis by simp
    next
      case (Inl e)
      with ih obtain k where k: "k < length rest"
        "close_error w (Suc (length (closed w)) + k) = Some e"
        "\<forall>j<k. close_error w (Suc (length (closed w)) + j) = None"
        "closed w' = closed w @ client conn # map client (take (Suc k) rest)"
        and ce: "close_error w' = close_error w"
        by auto
      have "\<forall>j<Suc k. close_error w (length (closed w) + j) = None"
      proof (intro allI impI)
        fix j assume "j < Suc k"
        then show "close_error w (length (closed w) + j) = None"
          using None k(3) by (cases j) auto
      qed
      with k ce Inl show ?thesis
        by (auto intro!: exI [where x = "Suc k"])
    qed
  qed
qed

text \<open>
  C7. \<open>closeAll\<close> calls \<open>close()\<close> on the clients in array order and stops at the
  first call that throws. If none throws, every client has been closed, the array is
  empty, \<open>initialized\<close> is false, and a further \<open>closeAll\<close> returns normally and
  changes nothing. If the \<open>k\<close>-th call throws, the result is a \<open>DatabaseError\<close>
  around what it threw, \<open>close()\<close> has been called on the entries up to and including
  that one and on no later one, and the pool is as it was, entries and flag.
\<close>

theorem closeAll_stops_at_failure:
  "(case closeAll w p of
      (Inr u, p', w') \<Rightarrow>
        p' = p\<lparr>pool := [], initialized := False\<rparr>
        \<and> closed w' = closed w @ map client (pool p)
        \<and> (\<forall>k<length (pool p). close_error w (length (closed w) + k) = None)
        \<and> closeAll w' p' = (Inr (), p', w')
    | (Inl e, p', w') \<Rightarrow>
        p' = p
        \<and> (\<exists>k<length (pool p).
              e = DatabaseError ''Failed to close connection pool''
                    (close_error w (length (closed w) + k))
              \<and> close_error w (length (closed w) + k) \<noteq> None
              \<and> (\<forall>j<k. close_error w (length (closed w) + j) = None)
              \<and> closed w' = closed w @ map client (take (Suc k) (pool p))))"
proof -
  obtain r w1 where l: "close_loop (pool p) w = (r, w1)" by (cases "close_loop (pool p) w")
  note s = close_loop_spec [OF l]
  show ?thesis
  proof (cases r)
    case (Inr u)
    with l have c: "closeAll w p = (Inr (), p\<lparr>pool := [], initialized := False\<rparr>, w1)"
      by (simp add: closeAll_def)
    have "closeAll w1 (p\<lparr>pool := [], initialized := False\<rparr>) =
        (Inr (), p\<lparr>pool := [], initialized := False\<rparr>, w1)"
      by (simp add: closeAll_def)
    with c s Inr show ?thesis by simp
  next
    case (Inl e)
    with l have c: "closeAll w p =
        (Inl (DatabaseError ''Failed to close connection pool'' (Some e)), p, w1)"
      by (simp add: closeAll_def)
    from s Inl obtain k where "k < length (pool p)"
      "close_error w (length (closed w) + k) = Some e"
      "\<forall>j<k. close_error w (length (closed w) + j) = None"
      "closed w1 = closed w @ map client (take (Suc k) (pool p))"
      by auto
    then have "\<exists>k<length (pool p).
              DatabaseError ''Failed to close connection pool'' (Some e) =
                DatabaseError ''Failed to close connection pool''
                    (close_error w (length (closed w) + k))
              \<and> close_error w (length (closed w) + k) \<noteq> None
              \<and> (\<forall>j<k. close_error w (length (closed w) + j) = None)
              \<and> closed w1 = closed w @ map client (take (Suc k) (pool p))"
      by (intro exI [where x = k]) simp
    with c show ?thesis by simp
  qed
qed

lemma closeAll_quiet:
  "closeAll (quiet_world 0) pool2 =
     (Inr (), \<lparr>pool = [], maxSize = 2, timeout = 1000, initialized = False\<rparr>,
      (quiet_world 0)\<lparr>closed := [0, 1]\<rparr>)"
  by (simp add: closeAll_def close_client_def pool2_def quiet_world_def Let_def)

theorem closeAll_stops_at_failure_witness:
  "closeAll (quiet_world 0) pool2 =
     (Inr (), \<lparr>pool = [], maxSize = 2, timeout = 1000, initialized = False\<rparr>,
      (quiet_world 0)\<lparr>closed := [0, 1]\<rparr>)
   \<and> closeAll ((quiet_world 0)\<lparr>closed := [0, 1]\<rparr>)
        \<lparr>pool = [], maxSize = 2, timeout = 1000, initialized = False\<rparr> =
     (Inr (), \<lparr>pool = [], maxSize = 2, timeout = 1000, initialized = False\<rparr>,
      (quiet_world 0)\<lparr>closed := [0, 1]\<rparr>)"
proof -
  note t = closeAll_stops_at_failure [where w = "quiet_world 0" and p = pool2,
      unfolded closeAll_quiet prod.case sum.case]
  show ?thesis
    by (rule conjI [OF closeAll_quiet t [THEN conjunct2, THEN conjunct2, THEN conjunct2]])
qed

text \<open>
  Not every session is attempted, as C7 has it: when the first \<open>close()\<close> throws,
  the second client of \<open>pool2\<close> is never closed.
\<close>

theorem closeAll_counterexample:
  "closeAll stuck_world pool2 =
     (Inl (DatabaseError ''Failed to close connection pool'' (Some (Thrown ''socket hang up''))),
      pool2, stuck_world\<lparr>closed := [0]\<rparr>)
   \<and> map client (pool pool2) = [0, 1]
   \<and> closed stuck_world = []"
  by (simp add: closeAll_def close_client_def pool2_def stuck_world_def quiet_world_def Let_def)

section \<open>Capacity and exclusivity\<close>

text \<open>
  Exclusivity holds for every sequence of calls that do not overlap, in a world without
  other tasks: \<open>pool_inv\<close> is kept by every method, and under it \<open>acquire\<close>
  returns only a client that is not out.
\<close>

lemma acquire_unfold:
  "acquire w p =
     (case initialize w p of
        (Inl e, p1, w1) \<Rightarrow> (Inl e, p1, w1)
      | (Inr u, p1, w1) \<Rightarrow> acquire_loop (fst (Date_now w1)) (snd (Date_now w1)) p1)"
  by (cases "initialized p")
    (auto simp: acquire_def initialize_noop split: prod.splits sum.splits)

lemma acquire_loop_conns:
  "conns (snd (snd (acquire_loop start w p))) = conns w"
proof (induction start w p rule: acquire_loop.induct)
  case (1 start w p)
  let ?w1 = "snd (Date_now w)"
  show ?case
  proof (cases "fst (Date_now w) - start < timeout p")
    case False
    then show ?thesis by (simp add: acquire_loop_expired)
  next
    case True
    show ?thesis
    proof (cases "find_idx (\<lambda>conn. \<not> inUse conn) (pool p)")
      case (Some i)
      then show ?thesis by (simp add: acquire_loop_found [OF True Some])
    next
      case None
      let ?p2 = "fst (setTimeout_wait 10 ?w1 p)"
      let ?w2 = "snd (setTimeout_wait 10 ?w1 p)"
      have a: "(fst (Date_now w), ?w1) = Date_now w"
        by (rule prod.collapse)
      have b: "(?p2, ?w2) = setTimeout_wait 10 ?w1 p"
        by (rule prod.collapse)
      have "conns (snd (snd (acquire_loop start ?w2 ?p2))) = conns ?w2"
        by (rule "1.IH" [OF a True None b])
      moreover have "conns ?w2 = conns w"
        by (simp add: setTimeout_wait_def suspend_def Let_def)
      ultimately show ?thesis
        by (simp add: acquire_loop_wait [OF True None])
    qed
  qed
qed

lemma inv_initialize:
  assumes "pool_inv H p w" and "initialize w p = (r, p', w')"
  shows "pool_inv H p' w'"
proof (cases "initialized p")
  case True
  with assms show ?thesis by (simp add: initialize_noop)
next
  case False
  from initialize_spec [OF False assms(2)]
  obtain es where es: "p' = p\<lparr>pool := pool p @ es, initialized := (r = Inr ())\<rparr>"
    "map client es = [conns w ..< conns w + length es]"
    "case r of
       Inr u \<Rightarrow> int (length es) = max 0 (maxSize p) \<and> conns w' = conns w + length es
     | Inl e \<Rightarrow> int (length es) < maxSize p
         \<and> e = DatabaseError ''Failed to initialize connection pool''
               (connect_error w (conns w + length es))
         \<and> connect_error w (conns w + length es) \<noteq> None"
    and o: "others w' = others w"
    by blast
  obtain r0 p0 w0 where l: "init_loop 0 w p = (r0, p0, w0)"
    by (cases "init_loop 0 w p")
  have w0: "w' = w0"
    using False assms(2) l by (auto simp: initialize_def split: sum.splits)
  from init_loop_spec [OF l] obtain es0 where es0: "p0 = p\<lparr>pool := pool p @ es0\<rparr>"
    "case r0 of
       Inr u \<Rightarrow> length es0 = nat (maxSize p - int 0) \<and> conns w0 = conns w + length es0
     | Inl e \<Rightarrow> length es0 < nat (maxSize p - int 0)
         \<and> connect_error w (conns w + length es0) = Some e
         \<and> conns w0 = Suc (conns w + length es0)"
    by blast
  have "pool p' = pool p0"
    using False assms(2) l by (auto simp: initialize_def split: sum.splits)
  with es(1) es0(1) have "es0 = es" by simp
  with es0(2) w0 have c: "conns w + length es \<le> conns w'"
    by (cases r0) auto
  have cl: "\<forall>e\<in>set es. conns w \<le> client e \<and> client e < conns w + length es"
  proof
    fix e assume "e \<in> set es"
    then have "client e \<in> set (map client es)" by simp
    then show "conns w \<le> client e \<and> client e < conns w + length es"
      by (simp only: es(2)) simp
  qed
  have d: "distinct (map client es)"
    by (simp only: es(2)) simp
  from assms(1) have inv: "distinct (map client (pool p))"
    "\<forall>e\<in>set (pool p). client e < conns w" "\<forall>c\<in>H. c < conns w"
    "\<forall>e\<in>set (pool p). client e \<in> H \<longrightarrow> inUse e" "\<forall>k s. others w k s = s"
    by (simp_all add: pool_inv_def)
  have 1: "distinct (map client (pool p'))"
    using inv(1,2) d cl es(1) by (fastforce simp: distinct_map inj_on_def)
  have 2: "\<forall>e\<in>set (pool p'). client e < conns w'"
    using inv(2) cl c es(1) by fastforce
  have 3: "\<forall>c\<in>H. c < conns w'"
    using inv(3) c by fastforce
  have 4: "\<forall>e\<in>set (pool p'). client e \<in> H \<longrightarrow> inUse e"
    using inv(3,4) cl es(1) by fastforce
  from 1 2 3 4 inv(5) o show ?thesis
    by (simp add: pool_inv_def)
qed

lemma update_client:
  "i < length es \<Longrightarrow> map client (es[i := (es ! i)\<lparr>inUse := b, lastUsed := t\<rparr>]) = map client es"
  by (simp add: map_update list_update_same_conv)

lemma distinct_client_index:
  assumes "distinct (map client es)" "i < length es" "k < length es"
    "client (es ! k) = client (es ! i)"
  shows "k = i"
proof -
  have "map client es ! k = map client es ! i" using assms by simp
  moreover have "k < length (map client es)" "i < length (map client es)"
    using assms by simp_all
  ultimately show ?thesis
    using assms(1) by (simp only: nth_eq_iff_index_eq)
qed

lemma inv_mark:
  assumes inv: "pool_inv H p w"
    and i: "i < length (pool p)"
    and w': "conns w' = conns w" "others w' = others w"
    and p': "p' = p\<lparr>pool := (pool p)[i := (pool p ! i)\<lparr>inUse := b, lastUsed := t\<rparr>]\<rparr>"
    and H': "H' \<subseteq> insert (client (pool p ! i)) H" "b \<or> client (pool p ! i) \<notin> H'"
  shows "pool_inv H' p' w'"
proof -
  let ?es = "pool p" and ?c = "client (pool p ! i)"
  from inv have a: "distinct (map client ?es)"
    "\<forall>e\<in>set ?es. client e < conns w" "\<forall>c\<in>H. c < conns w"
    "\<forall>e\<in>set ?es. client e \<in> H \<longrightarrow> inUse e" "\<forall>k s. others w k s = s"
    by (simp_all add: pool_inv_def)
  have m: "map client (pool p') = map client ?es"
    using i p' by (simp add: update_client)
  have 1: "distinct (map client (pool p'))"
    using a(1) m by simp
  have 2: "\<forall>e\<in>set (pool p'). client e < conns w'"
  proof
    fix e assume "e \<in> set (pool p')"
    then have "client e \<in> set (map client (pool p'))" by simp
    then have "client e \<in> set (map client ?es)" by (simp only: m)
    with a(2) w'(1) show "client e < conns w'" by auto
  qed
  have 3: "\<forall>c\<in>H'. c < conns w'"
    using a(2,3) H'(1) i w'(1) by (auto simp: subset_iff)
  have 4: "\<forall>e\<in>set (pool p'). client e \<in> H' \<longrightarrow> inUse e"
  proof (intro ballI impI)
    fix e assume e: "e \<in> set (pool p')" and h: "client e \<in> H'"
    from e p' i obtain k where k: "k < length ?es"
      "e = (?es[i := (?es ! i)\<lparr>inUse := b, lastUsed := t\<rparr>]) ! k"
      by (auto simp: in_set_conv_nth)
    show "inUse e"
    proof (cases "k = i")
      case True
      with k i have e': "inUse e = b" "client e = ?c" by simp_all
      with h H'(2) show ?thesis by auto
    next
      case False
      with k have e': "e = ?es ! k" by simp
      have "client e \<noteq> ?c"
      proof
        assume "client e = ?c"
        with e' have "client (?es ! k) = client (?es ! i)" by simp
        from distinct_client_index [OF a(1) i k(1) this] False show False by simp
      qed
      with h H'(1) have "client e \<in> H" by auto
      with a(4) e' k(1) show ?thesis by auto
    qed
  qed
  from 1 2 3 4 a(5) w'(2) show ?thesis
    by (simp add: pool_inv_def)
qed

lemma inv_world:
  "pool_inv H p w \<Longrightarrow> conns w' = conns w \<Longrightarrow> others w' = others w \<Longrightarrow> pool_inv H p w'"
  by (simp add: pool_inv_def)

lemma inv_acquire:
  assumes inv: "pool_inv H p w" and a: "acquire w p = (r, p', w')"
  shows "case r of Inr c \<Rightarrow> c \<notin> H \<and> pool_inv (insert c H) p' w' | Inl e \<Rightarrow> pool_inv H p' w'"
proof -
  obtain r1 p1 w1 where i: "initialize w p = (r1, p1, w1)" by (cases "initialize w p")
  have inv1: "pool_inv H p1 w1" by (rule inv_initialize [OF inv i])
  show ?thesis
  proof (cases r1)
    case (Inl e)
    with a i have "r = Inl e" "p' = p1" "w' = w1"
      by (simp_all add: acquire_unfold)
    with inv1 show ?thesis by simp
  next
    case (Inr u)
    let ?w2 = "snd (Date_now w1)"
    from Inr a i have l: "acquire_loop (fst (Date_now w1)) ?w2 p1 = (r, p', w')"
      by (simp add: acquire_unfold)
    have c: "conns w' = conns w1"
      using acquire_loop_conns [of "fst (Date_now w1)" ?w2 p1] l by simp
    from inv1 have q: "\<forall>k s. others w1 k s = s" by (simp add: pool_inv_def)
    have run: "\<And>k n. others_run (others ?w2) k n p1 = p1"
    proof -
      fix k n
      have "\<And>j s. others ?w2 j s = s"
      proof -
        fix j s
        have "others w1 j s = s" by (rule q [rule_format])
        then show "others ?w2 j s = s" by (simp only: Date_now_fields)
      qed
      then show "others_run (others ?w2) k n p1 = p1"
        by (rule others_run_quiet)
    qed
    note s = acquire_loop_spec [OF l]
    then have o: "others w' = others w1" by simp
    show ?thesis
    proof (cases r)
      case (Inl e)
      with s run have "p' = p1" by simp
      with inv1 c o Inl show ?thesis by (simp add: inv_world)
    next
      case (Inr c')
      with s run obtain i where f: "find_idx (\<lambda>conn. \<not> inUse conn) (pool p1) = Some i"
        "c' = client (pool p1 ! i)"
        "p' = p1\<lparr>pool := (pool p1)[i := (pool p1 ! i)\<lparr>inUse := True, lastUsed := now w'\<rparr>]\<rparr>"
        by auto
      from f(1) have i: "i < length (pool p1)" "\<not> inUse (pool p1 ! i)"
        by (auto dest: find_idx_Some)
      from inv1 have "\<forall>e\<in>set (pool p1). client e \<in> H \<longrightarrow> inUse e"
        by (simp add: pool_inv_def)
      with i f(2) have notin: "c' \<notin> H" by auto
      have "pool_inv (insert c' H) p' w'"
        by (rule inv_mark [OF inv1 i(1) c o f(3)]) (simp_all add: f(2))
      with notin Inr show ?thesis by simp
    qed
  qed
qed

lemma inv_release:
  assumes inv: "pool_inv H p w" and r: "release c w p = (p', w')"
  shows "pool_inv (H - {c}) p' w'"
proof (cases "find_idx (\<lambda>conn. client conn = c) (pool p)")
  case None
  with r have "p' = p" "w' = w" by (simp_all add: release_def)
  with inv show ?thesis by (auto simp: pool_inv_def)
next
  case (Some i)
  then have i: "i < length (pool p)" "client (pool p ! i) = c"
    by (auto dest: find_idx_Some)
  from Some r have p': "p' = p\<lparr>pool := (pool p)[i := (pool p ! i)\<lparr>inUse := False,
      lastUsed := fst (Date_now w)\<rparr>]\<rparr>" and w': "w' = snd (Date_now w)"
    by (auto simp: release_def split: prod.splits)
  show ?thesis
    by (rule inv_mark [OF inv i(1) _ _ p']) (auto simp: w' i(2))
qed

lemma close_loop_world:
  "conns (snd (close_loop es w)) = conns w \<and> others (snd (close_loop es w)) = others w"
  by (induction es arbitrary: w)
    (auto simp: close_client_def Let_def split: prod.splits sum.splits option.splits)

lemma inv_closeAll:
  assumes inv: "pool_inv H p w" and c: "closeAll w p = (r, p', w')"
  shows "pool_inv H p' w'"
proof -
  have w': "w' = snd (close_loop (pool p) w)"
    using c by (auto simp: closeAll_def split: prod.splits sum.splits)
  have "p' = p \<or> pool p' = []"
    using c by (auto simp: closeAll_def split: prod.splits sum.splits)
  with inv close_loop_world [of "pool p" w] w' show ?thesis
    by (auto simp: pool_inv_def)
qed

lemma inv_exclusive:
  "pool_inv H p w \<Longrightarrow> exclusive H (zip cs (fst (run cs w p)))"
proof (induction cs arbitrary: H p w)
  case Nil
  then show ?case by simp
next
  case (Cons c cs)
  show ?case
  proof (cases c)
    case Initialize
    obtain r p1 w1 where i: "initialize w p = (r, p1, w1)" by (cases "initialize w p")
    from inv_initialize [OF Cons.prems i] have "exclusive H (zip cs (fst (run cs w1 p1)))"
      by (rule Cons.IH)
    with Initialize i show ?thesis
      by (cases r) (simp_all add: case_prod_beta)
  next
    case Acquire
    obtain r p1 w1 where a: "acquire w p = (r, p1, w1)" by (cases "acquire w p")
    note s = inv_acquire [OF Cons.prems a]
    show ?thesis
    proof (cases r)
      case (Inl e)
      with s have "exclusive H (zip cs (fst (run cs w1 p1)))"
        by (intro Cons.IH) simp
      with Acquire a Inl show ?thesis by (simp add: case_prod_beta)
    next
      case (Inr c')
      with s have "c' \<notin> H" "exclusive (insert c' H) (zip cs (fst (run cs w1 p1)))"
        by (simp, intro Cons.IH, simp)
      with Acquire a Inr show ?thesis by (simp add: case_prod_beta)
    qed
  next
    case (Release c')
    obtain p1 w1 where r: "release c' w p = (p1, w1)" by (cases "release c' w p")
    from inv_release [OF Cons.prems r] have "exclusive (H - {c'}) (zip cs (fst (run cs w1 p1)))"
      by (rule Cons.IH)
    with Release r show ?thesis by (simp add: case_prod_beta)
  next
    case CloseAll
    obtain r p1 w1 where i: "closeAll w p = (r, p1, w1)" by (cases "closeAll w p")
    from inv_closeAll [OF Cons.prems i] have "exclusive H (zip cs (fst (run cs w1 p1)))"
      by (rule Cons.IH)
    with CloseAll i show ?thesis
      by (cases r) (simp_all add: case_prod_beta)
  qed
qed

lemma acquire_exclusive:
  "(\<forall>k s. others w k s = s) \<Longrightarrow> exclusive {} (zip cs (fst (run cs w (new_pool n tmo))))"
  by (rule inv_exclusive) (simp add: pool_inv_def new_pool_def)

text \<open>
  C1. The bounds on the number of entries and of connections in use do not hold on the
  code. When a handshake is refused, \<open>initialize\<close> throws and the entries pushed
  before stay in the array; the next \<open>initialize\<close> appends \<open>maxSize\<close> more. Here,
  with \<open>maxSize = 2\<close> and the second handshake refused, the pool ends up initialized
  with three entries, and three calls of \<open>acquire\<close> hand out three connections that
  are in use at once.
\<close>

theorem capacity_exceeded_after_retry:
  "run [Initialize, Initialize, Acquire, Acquire, Acquire] refusing_world (new_pool 2 1000) =
     ([Raised (DatabaseError ''Failed to initialize connection pool''
                 (Some (Thrown ''ECONNREFUSED''))),
       Done, Got 0, Got 2, Got 3],
      \<lparr>pool = [\<lparr>client = 0, inUse = True, lastUsed = 0\<rparr>,
               \<lparr>client = 2, inUse = True, lastUsed = 0\<rparr>,
               \<lparr>client = 3, inUse = True, lastUsed = 0\<rparr>],
       maxSize = 2, timeout = 1000, initialized = True\<rparr>,
      refusing_world\<lparr>ticks := 12, conns := 4\<rparr>)
   \<and> getStats (fst (snd (run [Initialize, Initialize, Acquire, Acquire, Acquire]
                            refusing_world (new_pool 2 1000)))) =
       \<lparr>total = 3, inUse = 3, available = 0\<rparr>
   \<and> maxSize (new_pool 2 1000) = 2"
  by (simp add: acquire_def initialize_def init_loop_pushed init_loop_refused init_loop_done
      acquire_loop.simps new_pool_def refusing_world_def quiet_world_def Date_now_def Let_def
      getStats_def)

end
